theory Spec2Isabelle
  imports Complex_Main
begin

section \<open>Python strings\<close>

text \<open>
  A Python \<open>str\<close> is modelled as a \<open>string\<close>; a character stands for a code point
  below 256. An \<open>Optional[str]\<close> is a \<open>string option\<close>; Python tests such a value
  for truth with \<open>if x:\<close>, which fails for \<open>None\<close> and for the empty string.
\<close>

definition truthy :: "string option \<Rightarrow> bool" where
  "truthy x = (case x of None \<Rightarrow> False | Some s \<Rightarrow> s \<noteq> [])"

text \<open>\<open>s[:n]\<close> for an integer \<open>n\<close>: a negative \<open>n\<close> counts from the end.\<close>

definition py_slice_to :: "'a list \<Rightarrow> int \<Rightarrow> 'a list" where
  "py_slice_to s n = (if 0 \<le> n then take (nat n) s else take (nat (int (length s) + n)) s)"

text \<open>
  \<open>str.isspace\<close> on code points below 256: tab to carriage return, the four separators
  28 to 31, the space, NEL (133) and the no-break space (160).
\<close>

definition py_isspace :: "char \<Rightarrow> bool" where
  "py_isspace c =
     (let n = (of_char c :: int)
      in if n \<le> 32 then (9 \<le> n \<and> n \<le> 13) \<or> 28 \<le> n else n = 133 \<or> n = 160)"

text \<open>\<open>s.strip()\<close> and \<open>s.strip(chars)\<close>.\<close>

definition py_strip :: "string \<Rightarrow> string" where
  "py_strip s = rev (dropWhile py_isspace (rev (dropWhile py_isspace s)))"

definition py_strip_chars :: "string \<Rightarrow> string \<Rightarrow> string" where
  "py_strip_chars chars s =
     rev (dropWhile (\<lambda>c. c \<in> set chars) (rev (dropWhile (\<lambda>c. c \<in> set chars) s)))"

text \<open>
  \<open>s.lower()\<close> on code points below 256: the letters A to Z, and the accented capitals
  192 to 222 apart from the multiplication sign 215, move up by 32, which sets the bit of
  weight 32 (it is clear in all of them).
\<close>

definition py_isupper :: "char \<Rightarrow> bool" where
  "py_isupper c =
     (let n = (of_char c :: int)
      in if n \<le> 90 then 65 \<le> n else 192 \<le> n \<and> n \<le> 222 \<and> n \<noteq> 215)"

definition py_lower_char :: "char \<Rightarrow> char" where
  "py_lower_char c =
     (if py_isupper c
      then (case c of Char b0 b1 b2 b3 b4 b5 b6 b7 \<Rightarrow> Char b0 b1 b2 b3 b4 True b6 b7)
      else c)"

definition py_lower :: "string \<Rightarrow> string" where
  "py_lower s = map py_lower_char s"

text \<open>\<open>s.split()\<close>: the maximal runs of characters that are not whitespace.\<close>

fun split_ws :: "string \<Rightarrow> string \<Rightarrow> string list" where
  "split_ws cur [] = (if cur = [] then [] else [cur])"
| "split_ws cur (c # cs) =
     (if py_isspace c then (if cur = [] then split_ws [] cs else cur # split_ws [] cs)
      else split_ws (cur @ [c]) cs)"

definition py_split :: "string \<Rightarrow> string list" where
  "py_split s = split_ws [] s"

text \<open>\<open>sep.join(xs)\<close>.\<close>

fun py_join :: "string \<Rightarrow> string list \<Rightarrow> string" where
  "py_join sep [] = []"
| "py_join sep [x] = x"
| "py_join sep (x # y # ys) = x @ sep @ py_join sep (y # ys)"

text \<open>\<open>pat in s\<close> for strings.\<close>

fun starts_with :: "string \<Rightarrow> string \<Rightarrow> bool" where
  "starts_with [] s = True"
| "starts_with (p # ps) [] = False"
| "starts_with (p # ps) (c # cs) = (p = c \<and> starts_with ps cs)"

fun contains :: "string \<Rightarrow> string \<Rightarrow> bool" where
  "contains pat [] = (pat = [])"
| "contains pat (c # cs) = (starts_with pat (c # cs) \<or> contains pat cs)"

text \<open>\<open>str(n)\<close> for an integer.\<close>

function str_nat :: "nat \<Rightarrow> string" where
  "str_nat n = (if n < 10 then [char_of (48 + n)] else str_nat (n div 10) @ [char_of (48 + n mod 10)])"
  by pat_completeness auto
termination
  by (relation "measure id") auto

definition str_int :: "int \<Rightarrow> string" where
  "str_int i = (if i < 0 then ''-'' @ str_nat (nat (- i)) else str_nat (nat i))"

text \<open>A call either returns a value or raises an exception, of which the text is kept.\<close>

datatype 'a outcome = Returned 'a | Raised string

section \<open>Settings store and masked secrets\<close>

text \<open>\<open>app/models/admin_settings.py\<close>: a row of \<open>admin_settings\<close>, keyed by \<open>setting_key\<close>.\<close>

record setting_row =
  setting_value :: "string option"
  setting_type :: string

type_synonym settings = "string \<rightharpoonup> setting_row"

text \<open>
  \<open>json.loads\<close>, as far as its callers here can tell its results apart: a text that is one
  JSON string, between optional whitespace, gives that string decoded; \<open>null\<close> gives
  \<open>None\<close>; any other text gives a value that is not a \<open>str\<close>, or makes \<open>json.loads\<close>
  raise. Inside a string a control character, an unknown escape and a missing closing
  quote are errors. An escape \<open>\uXXXX\<close> above \<open>00ff\<close> stands for a code point that the
  strings of this model do not hold; such a text is outside the model and is left with
  the texts that are not strings.
\<close>

datatype typed_value = PyNone | PyStr string | PyNonStr

definition json_space :: "char \<Rightarrow> bool" where
  "json_space c = (c = CHR '' '' \<or> c = CHR 0x09 \<or> c = CHR 0x0A \<or> c = CHR 0x0D)"

definition hex_digit :: "char \<Rightarrow> nat option" where
  "hex_digit c =
     (let n = (of_char c :: nat)
      in if 48 \<le> n \<and> n \<le> 57 then Some (n - 48)
         else if 65 \<le> n \<and> n \<le> 70 then Some (n - 55)
         else if 97 \<le> n \<and> n \<le> 102 then Some (n - 87)
         else None)"

definition json_escape :: "char \<Rightarrow> char option" where
  "json_escape e =
     (if e = CHR 0x22 \<or> e = CHR 0x5C \<or> e = CHR ''/'' then Some e
      else if e = CHR ''b'' then Some (CHR 0x08)
      else if e = CHR ''f'' then Some (CHR 0x0C)
      else if e = CHR ''n'' then Some (CHR 0x0A)
      else if e = CHR ''r'' then Some (CHR 0x0D)
      else if e = CHR ''t'' then Some (CHR 0x09)
      else None)"

text \<open>
  The characters after an opening quote: the decoded string and what follows the closing
  quote. The second argument is the number of characters of an escape still to be passed
  over.
\<close>

fun json_string :: "string \<Rightarrow> nat \<Rightarrow> (string \<times> string) option" where
  "json_string [] skip = None"
| "json_string (c # cs) (Suc n) = json_string cs n"
| "json_string (c # cs) 0 =
     (if c = CHR 0x22 then Some ([], cs)
      else if c = CHR 0x5C
      then (case cs of
              [] \<Rightarrow> None
            | e # es \<Rightarrow>
                if e = CHR ''u''
                then (case map hex_digit (take 4 es) of
                        [Some h1, Some h2, Some h3, Some h4] \<Rightarrow>
                          if h1 = 0 \<and> h2 = 0
                          then map_option (\<lambda>(decoded, rest). (char_of (16 * h3 + h4) # decoded, rest))
                                 (json_string cs 5)
                          else None
                      | _ \<Rightarrow> None)
                else (case json_escape e of
                        None \<Rightarrow> None
                      | Some x \<Rightarrow>
                          map_option (\<lambda>(decoded, rest). (x # decoded, rest)) (json_string cs 1)))
      else if (of_char c :: nat) < 32 then None
      else map_option (\<lambda>(decoded, rest). (c # decoded, rest)) (json_string cs 0))"

definition json_loads :: "string \<Rightarrow> typed_value" where
  "json_loads v =
     (case dropWhile json_space v of
        [] \<Rightarrow> PyNonStr
      | c # cs \<Rightarrow>
          if c = CHR 0x22
          then (case json_string cs 0 of
                  None \<Rightarrow> PyNonStr
                | Some (decoded, rest) \<Rightarrow>
                    if dropWhile json_space rest = [] then PyStr decoded else PyNonStr)
          else if rev (dropWhile json_space (rev (c # cs))) = ''null'' then PyNone
          else PyNonStr)"

text \<open>
  The typed projection of a row. A boolean or an integer is not a \<open>str\<close>, which is all
  that its readers below depend on.
\<close>

definition get_typed_value :: "setting_row \<Rightarrow> typed_value" where
  "get_typed_value r =
     (case setting_value r of
        None \<Rightarrow> PyNone
      | Some v \<Rightarrow>
          if setting_type r = ''boolean'' then PyNonStr
          else if setting_type r = ''integer'' then PyNonStr
          else if setting_type r = ''json'' then json_loads v
          else PyStr v)"

definition get_setting :: "settings \<Rightarrow> string \<Rightarrow> typed_value \<Rightarrow> typed_value" where
  "get_setting st key dflt = (case st key of Some r \<Rightarrow> get_typed_value r | None \<Rightarrow> dflt)"

definition SUPPORTED_PROVIDERS :: "string list" where
  "SUPPORTED_PROVIDERS = [''gemini'', ''openai'', ''anthropic'', ''xai'']"

text \<open>
  \<open>EncryptionService.decrypt\<close>: the Fernet cipher is a parameter, \<open>None\<close> when it rejects
  the token; the method then raises \<open>ValueError\<close> (\<open>Inl\<close>).
\<close>

definition decrypt :: "(string \<Rightarrow> string option) \<Rightarrow> string \<Rightarrow> string + string" where
  "decrypt cipher encrypted_text =
     (if encrypted_text = [] then Inr []
      else case cipher encrypted_text of
             None \<Rightarrow> Inl ''Failed to decrypt data. The encryption key may have changed.''
           | Some plain \<Rightarrow> Inr plain)"

text \<open>
  \<open>AdminSettings.get_system_api_key\<close>. A stored value that is not a string is either
  falsy or makes \<open>decrypt\<close> raise inside its own \<open>try\<close>; both ways end in the empty string.
\<close>

definition get_system_api_key :: "(string \<Rightarrow> string option) \<Rightarrow> settings \<Rightarrow> string \<Rightarrow> string" where
  "get_system_api_key cipher st provider =
     (if provider \<notin> set SUPPORTED_PROVIDERS then []
      else case get_setting st (''system_api_key_'' @ provider) (PyStr []) of
             PyNone \<Rightarrow> []
           | PyNonStr \<Rightarrow> []
           | PyStr encrypted_key \<Rightarrow>
               if encrypted_key = [] then []
               else (case decrypt cipher encrypted_key of Inl e \<Rightarrow> [] | Inr k \<Rightarrow> k))"

text \<open>\<open>EncryptionService.mask_api_key\<close>.\<close>

definition mask_api_key :: "string \<Rightarrow> int \<Rightarrow> string" where
  "mask_api_key api_key show_chars =
     (if api_key = [] \<or> int (length api_key) < show_chars then []
      else py_slice_to api_key show_chars @ ''...'')"

text \<open>\<open>AdminSettings.get_masked_system_api_key\<close>.\<close>

definition get_masked_system_api_key ::
  "(string \<Rightarrow> string option) \<Rightarrow> settings \<Rightarrow> string \<Rightarrow> int \<Rightarrow> string" where
  "get_masked_system_api_key cipher st provider show_chars =
     (let api_key = get_system_api_key cipher st provider
      in if api_key = [] then [] else mask_api_key api_key show_chars)"

text \<open>A store holding the secret \<open>abc\<close> for \<open>openai\<close>, under a cipher that is the identity.\<close>

definition demo_settings :: settings where
  "demo_settings =
     [''system_api_key_openai'' \<mapsto> \<lparr>setting_value = Some ''abc'', setting_type = ''string''\<rparr>]"

section \<open>Chat messages handed to a provider\<close>

text \<open>\<open>app/models/attachment.py\<close>, as \<open>Attachment.to_dict\<close> hands it to the adapter.\<close>

record attachment =
  att_original_filename :: string
  att_stored_filename :: string
  att_file_path :: string
  att_mime_type :: string
  att_file_size :: nat
  att_file_type :: string

text \<open>A message dictionary: \<open>role\<close>, \<open>content\<close> and the optional \<open>attachments\<close> key.\<close>

record message =
  msg_role :: string
  msg_content :: string
  msg_attachments :: "attachment list"

text \<open>The f-string that wraps the retrieved context (\<open>ai_service.py\<close>, lines 1738-1744).\<close>

definition rag_prompt_prefix :: string where
  "rag_prompt_prefix =
     ''You have access to the following document context that may be relevant to the user''
     @ [CHR 0x27] @ ''s questions.'' @ [CHR 0x0A]
     @ ''            Use this information to provide accurate, informed responses. If the context doesn''
     @ [CHR 0x27] @ ''t contain relevant information,'' @ [CHR 0x0A]
     @ ''            you can still answer based on your knowledge, but mention that the provided documents didn''
     @ [CHR 0x27] @ ''t contain specific information about that topic.'' @ [CHR 0x0A, CHR 0x0A]
     @ ''            ''"

definition rag_prompt_suffix :: string where
  "rag_prompt_suffix =
     [CHR 0x0A, CHR 0x0A]
     @ ''            Remember to cite the source documents when using information from them.''"

definition age_system_message :: "string \<Rightarrow> message" where
  "age_system_message age_system_prompt =
     \<lparr>msg_role = ''system'', msg_content = age_system_prompt, msg_attachments = []\<rparr>"

definition rag_system_message :: "string \<Rightarrow> message" where
  "rag_system_message rag_context =
     \<lparr>msg_role = ''system'',
      msg_content = rag_prompt_prefix @ rag_context @ rag_prompt_suffix,
      msg_attachments = []\<rparr>"

text \<open>
  \<open>AIService.get_response_stream\<close>, lines 1725-1747: the message list that is handed to
  the provider stream. The safety prompt is prepended to the history, and then the
  document context is prepended to the result.
\<close>

definition inject_system_messages ::
  "message list \<Rightarrow> string option \<Rightarrow> string option \<Rightarrow> message list" where
  "inject_system_messages messages rag_context age_system_prompt =
     (let messages1 = (if truthy age_system_prompt
                       then [age_system_message (the age_system_prompt)] @ messages
                       else messages);
          messages2 = (if truthy rag_context
                       then [rag_system_message (the rag_context)] @ messages1
                       else messages1)
      in messages2)"

definition demo_history :: "message list" where
  "demo_history =
     [\<lparr>msg_role = ''user'', msg_content = ''What is in my notes?'', msg_attachments = []\<rparr>]"

section \<open>Vector store\<close>

text \<open>
  \<open>app/services/vector_store.py\<close>. A collection holds the entries that \<open>collection.add\<close>
  received, in insertion order; there is one collection per user, named \<open>user_<id>\<close>.
\<close>

record chunk_metadata =
  md_document_id :: nat
  md_chunk_index :: int
  md_page_number :: int
  md_token_count :: int
  md_start_char :: int
  md_end_char :: int

record vec_entry =
  ve_id :: string
  ve_embedding :: "real list"
  ve_document :: string
  ve_metadata :: chunk_metadata

text \<open>
  The store: whether the ChromaDB client can be had at all (\<open>get_client\<close> returns \<open>None\<close>
  when the library is missing or fails to start), and the collections by user.
\<close>

record vector_store =
  vs_client_ok :: bool
  vs_collections :: "nat \<rightharpoonup> vec_entry list"

datatype where_filter = NoFilter | DocumentIs nat | DocumentIn "nat list"

record query_hit =
  hit_id :: string
  hit_document :: string
  hit_metadata :: chunk_metadata
  hit_distance :: real

text \<open>
  What the library does is a parameter: whether creating a collection, adding or deleting
  raises, the identifiers that \<open>uuid.uuid4\<close> draws, and the nearest-neighbour search.
\<close>

record chroma_env =
  ce_create_fails :: bool
  ce_add_error :: "string option"
  ce_delete_error :: "string option"
  ce_uuid4 :: "nat \<Rightarrow> string"
  ce_query :: "vec_entry list \<Rightarrow> real list \<Rightarrow> int \<Rightarrow> where_filter \<Rightarrow> string + query_hit list"

text \<open>
  \<open>VectorStore.get_user_collection\<close>: \<open>None\<close> without a client; with \<open>create\<close> the
  collection is made when absent; without it an absent collection is \<open>None\<close>.
\<close>

definition get_user_collection ::
  "chroma_env \<Rightarrow> vector_store \<Rightarrow> nat \<Rightarrow> bool \<Rightarrow> vector_store \<times> vec_entry list option" where
  "get_user_collection env vs user_id create =
     (if \<not> vs_client_ok vs then (vs, None)
      else if create then
        (if ce_create_fails env then (vs, None)
         else case vs_collections vs user_id of
                Some c \<Rightarrow> (vs, Some c)
              | None \<Rightarrow> (vs\<lparr>vs_collections := (vs_collections vs)(user_id \<mapsto> [])\<rparr>, Some []))
      else (vs, vs_collections vs user_id))"

record formatted_result =
  fr_chroma_id :: string
  fr_content :: string
  fr_metadata :: chunk_metadata
  fr_distance :: real
  fr_similarity :: real

record query_result =
  qr_results :: "formatted_result list"
  qr_error :: "string option"

definition format_hit :: "query_hit \<Rightarrow> formatted_result" where
  "format_hit h =
     \<lparr>fr_chroma_id = hit_id h, fr_content = hit_document h, fr_metadata = hit_metadata h,
      fr_distance = hit_distance h, fr_similarity = 1 / (1 + hit_distance h)\<rparr>"

text \<open>\<open>VectorStore.query\<close>.\<close>

definition query ::
  "chroma_env \<Rightarrow> vector_store \<Rightarrow> nat \<Rightarrow> real list \<Rightarrow> int \<Rightarrow> nat list option \<Rightarrow> query_result" where
  "query env vs user_id query_embedding n_results document_ids =
     (case snd (get_user_collection env vs user_id False) of
        None \<Rightarrow> \<lparr>qr_results = [], qr_error = Some ''User has no document collection''\<rparr>
      | Some collection \<Rightarrow>
          (let where_filter =
                 (case document_ids of
                    None \<Rightarrow> NoFilter
                  | Some ids \<Rightarrow>
                      if ids = [] then NoFilter
                      else if length ids = 1 then DocumentIs (hd ids)
                      else DocumentIn ids)
           in case ce_query env collection query_embedding n_results where_filter of
                Inl e \<Rightarrow> \<lparr>qr_results = [], qr_error = Some (''Query failed: '' @ e)\<rparr>
              | Inr hits \<Rightarrow> \<lparr>qr_results = map format_hit hits, qr_error = None\<rparr>))"

text \<open>
  A chunk dictionary as the chunker returns it; \<open>chunk_index\<close> is the key that the
  ingestion pipeline adds.
\<close>

record chunk =
  ck_content :: string
  ck_token_count :: int
  ck_start_char :: int
  ck_end_char :: int
  ck_page_number :: "int option"
  ck_chunk_index :: "int option"

record store_result =
  sr_success :: bool
  sr_chroma_ids :: "string list"
  sr_error :: "string option"

definition chunk_metadata_of :: "nat \<Rightarrow> nat \<Rightarrow> chunk \<Rightarrow> chunk_metadata" where
  "chunk_metadata_of document_id i c =
     \<lparr>md_document_id = document_id,
      md_chunk_index = (case ck_chunk_index c of Some k \<Rightarrow> k | None \<Rightarrow> int i),
      md_page_number = (case ck_page_number c of Some p \<Rightarrow> p | None \<Rightarrow> 0),
      md_token_count = ck_token_count c,
      md_start_char = ck_start_char c,
      md_end_char = ck_end_char c\<rparr>"

definition new_entries ::
  "chroma_env \<Rightarrow> nat \<Rightarrow> chunk list \<Rightarrow> real list list \<Rightarrow> vec_entry list" where
  "new_entries env document_id chunks embeddings =
     map (\<lambda>i. \<lparr>ve_id = ce_uuid4 env i, ve_embedding = embeddings ! i,
                ve_document = ck_content (chunks ! i),
                ve_metadata = chunk_metadata_of document_id i (chunks ! i)\<rparr>)
         [0 ..< length chunks]"

text \<open>
  \<open>VectorStore.add_chunks\<close>. \<open>collection.add\<close> inserts all the entries or raises and
  inserts none.
\<close>

definition add_chunks ::
  "chroma_env \<Rightarrow> vector_store \<Rightarrow> nat \<Rightarrow> chunk list \<Rightarrow> real list list \<Rightarrow> nat
     \<Rightarrow> vector_store \<times> store_result" where
  "add_chunks env vs user_id chunks embeddings document_id =
     (if length chunks \<noteq> length embeddings
      then (vs, \<lparr>sr_success = False, sr_chroma_ids = [],
                 sr_error = Some ''Chunks and embeddings count mismatch''\<rparr>)
      else case get_user_collection env vs user_id True of
             (vs1, None) \<Rightarrow>
               (vs1, \<lparr>sr_success = False, sr_chroma_ids = [],
                      sr_error = Some ''Could not get user collection''\<rparr>)
           | (vs1, Some collection) \<Rightarrow>
               (case ce_add_error env of
                  Some e \<Rightarrow>
                    (vs1, \<lparr>sr_success = False, sr_chroma_ids = [],
                           sr_error = Some (''Failed to add chunks: '' @ e)\<rparr>)
                | None \<Rightarrow>
                    (vs1\<lparr>vs_collections := (vs_collections vs1)
                           (user_id \<mapsto> collection @ new_entries env document_id chunks embeddings)\<rparr>,
                     \<lparr>sr_success = True,
                      sr_chroma_ids = map (ce_uuid4 env) [0 ..< length chunks],
                      sr_error = None\<rparr>)))"

record delete_result =
  dr_success :: bool
  dr_error :: "string option"

text \<open>\<open>VectorStore.delete_chunks_by_ids\<close>.\<close>

definition delete_chunks_by_ids ::
  "chroma_env \<Rightarrow> vector_store \<Rightarrow> nat \<Rightarrow> string list \<Rightarrow> vector_store \<times> delete_result" where
  "delete_chunks_by_ids env vs user_id chroma_ids =
     (case snd (get_user_collection env vs user_id False) of
        None \<Rightarrow> (vs, \<lparr>dr_success = True, dr_error = None\<rparr>)
      | Some collection \<Rightarrow>
          (case ce_delete_error env of
             Some e \<Rightarrow> (vs, \<lparr>dr_success = False, dr_error = Some e\<rparr>)
           | None \<Rightarrow>
               (vs\<lparr>vs_collections := (vs_collections vs)
                      (user_id \<mapsto> filter (\<lambda>v. ve_id v \<notin> set chroma_ids) collection)\<rparr>,
                \<lparr>dr_success = True, dr_error = None\<rparr>)))"

text \<open>The vectors that a user's collection holds for a document.\<close>

definition vectors_of :: "vector_store \<Rightarrow> nat \<Rightarrow> nat \<Rightarrow> vec_entry list" where
  "vectors_of vs user_id document_id =
     (case vs_collections vs user_id of
        None \<Rightarrow> []
      | Some collection \<Rightarrow> filter (\<lambda>v. md_document_id (ve_metadata v) = document_id) collection)"

section \<open>Documents and the ingestion pipeline\<close>

text \<open>\<open>app/models/document.py\<close>: the columns of \<open>documents\<close> and \<open>document_chunks\<close>.\<close>

record document =
  doc_user_id :: nat
  doc_original_filename :: string
  doc_stored_filename :: string
  doc_file_path :: string
  doc_mime_type :: string
  doc_file_size :: int
  doc_file_type :: string
  doc_status :: string
  doc_error_message :: "string option"
  doc_chunk_count :: int
  doc_total_tokens :: int
  doc_embedding_model :: "string option"
  doc_processed_at :: "nat option"

record document_chunk =
  dc_document_id :: nat
  dc_chunk_index :: int
  dc_content :: string
  dc_token_count :: int
  dc_start_char :: int
  dc_end_char :: int
  dc_page_number :: "int option"
  dc_chroma_id :: string

definition mark_processing :: "document \<Rightarrow> document" where
  "mark_processing d = d\<lparr>doc_status := ''processing'', doc_error_message := None\<rparr>"

definition mark_ready :: "document \<Rightarrow> int \<Rightarrow> int \<Rightarrow> string \<Rightarrow> nat \<Rightarrow> document" where
  "mark_ready d chunk_count total_tokens embedding_model now =
     d\<lparr>doc_status := ''ready'', doc_chunk_count := chunk_count,
       doc_total_tokens := total_tokens, doc_embedding_model := Some embedding_model,
       doc_processed_at := Some now, doc_error_message := None\<rparr>"

definition mark_failed :: "document \<Rightarrow> string \<Rightarrow> document" where
  "mark_failed d error_message = d\<lparr>doc_status := ''failed'', doc_error_message := Some error_message\<rparr>"

text \<open>
  The observable state: the committed rows of the two tables and the vector store, which
  is outside the database transaction.
\<close>

record system =
  sys_documents :: "nat \<rightharpoonup> document"
  sys_chunks :: "document_chunk list"
  sys_vs :: vector_store

text \<open>
  The session of one run of \<open>process_document\<close>: the attributes of the document object
  that \<open>Document.query.get\<close> loaded, the chunk rows passed to \<open>db.session.add\<close> and not
  yet written, and, once a flush has failed, the exception that it raised.

  \<open>db.session.commit()\<close> does one of three things, as the database and the library
  decide: it writes what the session holds; or it raises while flushing, which leaves the
  transaction waiting for a \<open>rollback\<close>; or it raises with the session as it was.
  \<open>process_document\<close> never calls \<open>db.session.rollback()\<close>, so after a failed flush every
  later commit of the run raises too, with the text that the library makes from the first
  exception, and writes nothing.
\<close>

record session =
  se_document :: document
  se_new :: "document_chunk list"
  se_failed_flush :: "string option"

datatype commit_outcome = Commits | Fails_in_flush string | Fails_untouched string

definition commit ::
  "(string \<Rightarrow> string) \<Rightarrow> commit_outcome \<Rightarrow> nat \<Rightarrow> system \<Rightarrow> session
     \<Rightarrow> (system \<times> session) \<times> string option" where
  "commit pending_rollback happens document_id s se =
     (case se_failed_flush se of
        Some e0 \<Rightarrow> ((s, se), Some (pending_rollback e0))
      | None \<Rightarrow>
          (case happens of
             Commits \<Rightarrow>
               ((s\<lparr>sys_documents := (sys_documents s)(document_id \<mapsto> se_document se),
                   sys_chunks := sys_chunks s @ se_new se\<rparr>,
                 se\<lparr>se_new := []\<rparr>),
                None)
           | Fails_in_flush e \<Rightarrow> ((s, se\<lparr>se_failed_flush := Some e\<rparr>), Some e)
           | Fails_untouched e \<Rightarrow> ((s, se), Some e)))"

record extraction =
  ex_text :: string
  ex_pages :: "string list"
  ex_error :: "string option"

record embedding_result =
  er_embeddings :: "real list list"
  er_model :: string
  er_error :: "string option"

text \<open>
  What the collaborators of one run of \<open>process_document\<close> do: the settings read, the
  extractor, the chunker and the embedder (each may raise, \<open>Inl\<close>), the vector library,
  the clock, what happens at each of the three commits (the one after \<open>mark_processing\<close>,
  the one inside the \<open>try\<close> body, and the one in the handler), and the text of the
  exception that a commit raises after a failed flush.
\<close>

record process_env =
  pe_chunk_size :: int
  pe_chunk_overlap :: int
  pe_embedding_provider :: string
  pe_upload_path :: "string \<Rightarrow> string"
  pe_extract :: "string \<Rightarrow> string \<Rightarrow> string + extraction"
  pe_chunk_document :: "string \<Rightarrow> int \<Rightarrow> int \<Rightarrow> string list option \<Rightarrow> string + chunk list"
  pe_get_embeddings_batch :: "string list \<Rightarrow> string \<Rightarrow> string + embedding_result"
  pe_chroma :: chroma_env
  pe_now :: nat
  pe_commit_processing :: commit_outcome
  pe_commit_body :: commit_outcome
  pe_commit_handler :: commit_outcome
  pe_pending_rollback :: "string \<Rightarrow> string"

record process_result =
  pr_success :: bool
  pr_chunk_count :: int
  pr_total_tokens :: int
  pr_error :: "string option"

definition failure :: "string option \<Rightarrow> process_result" where
  "failure e = \<lparr>pr_success = False, pr_chunk_count = 0, pr_total_tokens = 0, pr_error = e\<rparr>"

text \<open>
  A failing step inside the \<open>try\<close> body: \<open>document.mark_failed(...)\<close>, commit, return.
  When the commit raises, the exception goes to the handler (\<open>Inl\<close>), the document object
  still marked failed.
\<close>

definition fail_step ::
  "process_env \<Rightarrow> system \<Rightarrow> session \<Rightarrow> nat \<Rightarrow> string \<Rightarrow> string option
     \<Rightarrow> (system \<times> session) \<times> (string + process_result)" where
  "fail_step env s se document_id error_message result_error =
     (case commit (pe_pending_rollback env) (pe_commit_body env) document_id s
             (se\<lparr>se_document := mark_failed (se_document se) error_message\<rparr>) of
        (after, None) \<Rightarrow> (after, Inr (failure result_error))
      | (after, Some e) \<Rightarrow> (after, Inl e))"

text \<open>\<open>for i, chunk in enumerate(chunks): chunk['chunk_index'] = i\<close>.\<close>

definition add_chunk_indices :: "chunk list \<Rightarrow> chunk list" where
  "add_chunk_indices chunks =
     map (\<lambda>i. (chunks ! i)\<lparr>ck_chunk_index := Some (int i)\<rparr>) [0 ..< length chunks]"

definition db_chunk_of :: "nat \<Rightarrow> chunk \<Rightarrow> string \<Rightarrow> document_chunk" where
  "db_chunk_of document_id c chroma_id =
     \<lparr>dc_document_id = document_id,
      dc_chunk_index = the (ck_chunk_index c),
      dc_content = ck_content c,
      dc_token_count = ck_token_count c,
      dc_start_char = ck_start_char c,
      dc_end_char = ck_end_char c,
      dc_page_number = ck_page_number c,
      dc_chroma_id = chroma_id\<rparr>"

text \<open>
  Steps 5 and 6 of \<open>process_document\<close> (lines 225-258): a row per chunk is added to the
  session, each with \<open>chroma_ids[i]\<close>, the document is marked ready, and all of it is
  committed. A missing \<open>chroma_ids[i]\<close> raises \<open>IndexError\<close> with the earlier rows added
  to the session. When the commit raises, the rows and the document marked ready are
  still in the session that the handler gets.
\<close>

definition save_chunks ::
  "process_env \<Rightarrow> system \<Rightarrow> session \<Rightarrow> nat \<Rightarrow> chunk list \<Rightarrow> string list \<Rightarrow> string
     \<Rightarrow> (system \<times> session) \<times> (string + process_result)" where
  "save_chunks env s se document_id chunks chroma_ids embedding_model =
     (if length chroma_ids < length chunks
      then ((s, se\<lparr>se_new := se_new se @
                      map (\<lambda>i. db_chunk_of document_id (chunks ! i) (chroma_ids ! i))
                          [0 ..< length chroma_ids]\<rparr>),
            Inl ''list index out of range'')
      else
        (let rows = map (\<lambda>i. db_chunk_of document_id (chunks ! i) (chroma_ids ! i))
                        [0 ..< length chunks];
             total_tokens = sum_list (map ck_token_count chunks)
         in case commit (pe_pending_rollback env) (pe_commit_body env) document_id s
                   (se\<lparr>se_new := se_new se @ rows,
                       se_document := mark_ready (se_document se) (int (length chunks))
                                        total_tokens embedding_model (pe_now env)\<rparr>) of
              (after, None) \<Rightarrow>
                (after, Inr \<lparr>pr_success = True, pr_chunk_count = int (length chunks),
                            pr_total_tokens = total_tokens, pr_error = None\<rparr>)
            | (after, Some e) \<Rightarrow> (after, Inl e)))"

text \<open>The body of the \<open>try\<close> in \<open>process_document\<close> (lines 116-258).\<close>

definition process_steps ::
  "process_env \<Rightarrow> system \<Rightarrow> session \<Rightarrow> nat
     \<Rightarrow> (system \<times> session) \<times> (string + process_result)" where
  "process_steps env s se document_id =
     (case pe_extract env (pe_upload_path env (doc_file_path (se_document se)))
             (doc_file_type (se_document se)) of
        Inl e \<Rightarrow> ((s, se), Inl e)
      | Inr extraction_result \<Rightarrow>
          if truthy (ex_error extraction_result)
          then fail_step env s se document_id
                 (''Extraction failed: '' @ the (ex_error extraction_result))
                 (ex_error extraction_result)
          else if ex_text extraction_result = [] \<or> py_strip (ex_text extraction_result) = []
          then fail_step env s se document_id ''No text content extracted from document''
                 (Some ''No text content in document'')
          else
            (case pe_chunk_document env (ex_text extraction_result) (pe_chunk_size env)
                    (pe_chunk_overlap env)
                    (if ex_pages extraction_result = [] then None
                     else Some (ex_pages extraction_result)) of
               Inl e \<Rightarrow> ((s, se), Inl e)
             | Inr chunks0 \<Rightarrow>
                 if chunks0 = []
                 then fail_step env s se document_id ''Failed to create chunks from document''
                        (Some ''No chunks created'')
                 else
                   (let chunks = add_chunk_indices chunks0
                    in case pe_get_embeddings_batch env (map ck_content chunks)
                              (pe_embedding_provider env) of
                         Inl e \<Rightarrow> ((s, se), Inl e)
                       | Inr embedding_result \<Rightarrow>
                           if truthy (er_error embedding_result)
                           then fail_step env s se document_id
                                  (''Embedding failed: '' @ the (er_error embedding_result))
                                  (er_error embedding_result)
                           else if length (er_embeddings embedding_result) \<noteq> length chunks
                           then fail_step env s se document_id ''Embedding count mismatch''
                                  (Some ''Embedding count mismatch'')
                           else
                             (case add_chunks (pe_chroma env) (sys_vs s)
                                     (doc_user_id (se_document se)) chunks
                                     (er_embeddings embedding_result) document_id of
                                (vs1, store_result) \<Rightarrow>
                                  if \<not> sr_success store_result
                                  then fail_step env (s\<lparr>sys_vs := vs1\<rparr>) se document_id
                                         (''Vector store failed: '' @
                                            (case sr_error store_result of
                                               Some e \<Rightarrow> e | None \<Rightarrow> ''None''))
                                         (sr_error store_result)
                                  else save_chunks env (s\<lparr>sys_vs := vs1\<rparr>) se document_id
                                         chunks (sr_chroma_ids store_result)
                                         (er_model embedding_result)))))"

text \<open>
  \<open>RAGService.process_document\<close>. An exception of the commit after \<open>mark_processing\<close>
  leaves the function, as nothing catches it. The handler of the \<open>try\<close> marks the document
  object failed with the text of the exception and commits: this writes whatever the
  session holds, or raises in its turn, and then the exception leaves the function.
\<close>

definition process_document ::
  "process_env \<Rightarrow> system \<Rightarrow> nat \<Rightarrow> system \<times> process_result outcome" where
  "process_document env s document_id =
     (case sys_documents s document_id of
        None \<Rightarrow> (s, Returned (failure (Some ''Document not found'')))
      | Some document \<Rightarrow>
          (case commit (pe_pending_rollback env) (pe_commit_processing env) document_id s
                  \<lparr>se_document = mark_processing document, se_new = [],
                   se_failed_flush = None\<rparr> of
             ((s1, se1), Some e) \<Rightarrow> (s1, Raised e)
           | ((s1, se1), None) \<Rightarrow>
               (case process_steps env s1 se1 document_id of
                  ((s2, se2), Inr result) \<Rightarrow> (s2, Returned result)
                | ((s2, se2), Inl e) \<Rightarrow>
                    (case commit (pe_pending_rollback env) (pe_commit_handler env) document_id s2
                            (se2\<lparr>se_document := mark_failed (se_document se2) e\<rparr>) of
                       ((s3, se3), None) \<Rightarrow> (s3, Returned (failure (Some e)))
                     | ((s3, se3), Some e2) \<Rightarrow> (s3, Raised e2)))))"

text \<open>A store with a client and no collection at all, and a library that never fails.\<close>

definition empty_store :: vector_store where
  "empty_store = \<lparr>vs_client_ok = True, vs_collections = Map.empty\<rparr>"

definition quiet_chroma :: chroma_env where
  "quiet_chroma =
     \<lparr>ce_create_fails = False, ce_add_error = None, ce_delete_error = None,
      ce_uuid4 = (\<lambda>i. ''id-'' @ replicate i (CHR ''x'')),
      ce_query = (\<lambda>c q n w. Inr [])\<rparr>"

text \<open>
  A document of user 7 waiting to be processed, and a run in which the extractor returns
  a text, the chunker two chunks and the embedder two vectors.
\<close>

definition demo_document :: document where
  "demo_document =
     \<lparr>doc_user_id = 7, doc_original_filename = ''notes.txt'',
      doc_stored_filename = ''0b0e.txt'', doc_file_path = ''rag_documents/0b0e.txt'',
      doc_mime_type = ''text/plain'', doc_file_size = 12, doc_file_type = ''txt'',
      doc_status = ''pending'', doc_error_message = None, doc_chunk_count = 0,
      doc_total_tokens = 0, doc_embedding_model = None, doc_processed_at = None\<rparr>"

definition demo_chunks :: "chunk list" where
  "demo_chunks =
     [\<lparr>ck_content = ''Alpha beta.'', ck_token_count = 2, ck_start_char = 0, ck_end_char = 11,
       ck_page_number = None, ck_chunk_index = None\<rparr>,
      \<lparr>ck_content = ''Gamma delta.'', ck_token_count = 3, ck_start_char = 12, ck_end_char = 24,
       ck_page_number = None, ck_chunk_index = None\<rparr>]"

definition demo_system :: system where
  "demo_system =
     \<lparr>sys_documents = [1 \<mapsto> demo_document], sys_chunks = [], sys_vs = empty_store\<rparr>"

definition demo_process_env :: process_env where
  "demo_process_env =
     \<lparr>pe_chunk_size = 512, pe_chunk_overlap = 50, pe_embedding_provider = ''gemini'',
      pe_upload_path = (\<lambda>p. ''/srv/uploads/'' @ p),
      pe_extract = (\<lambda>p t. Inr \<lparr>ex_text = ''Alpha beta. Gamma delta.'', ex_pages = [],
                                  ex_error = None\<rparr>),
      pe_chunk_document = (\<lambda>t cs ov pg. Inr demo_chunks),
      pe_get_embeddings_batch =
        (\<lambda>ts p. Inr \<lparr>er_embeddings = [[1, 0], [0, 1]], er_model = ''gemini-embedding-001'',
                      er_error = None\<rparr>),
      pe_chroma = quiet_chroma,
      pe_now = 1700000000,
      pe_commit_processing = Commits, pe_commit_body = Commits, pe_commit_handler = Commits,
      pe_pending_rollback = (\<lambda>e. ''PendingRollbackError: '' @ e)\<rparr>"

text \<open>
  The same run with a commit of the chunk rows that fails in its flush, and with one that
  raises with the session untouched.
\<close>

definition failing_commit_env :: process_env where
  "failing_commit_env = demo_process_env\<lparr>pe_commit_body := Fails_in_flush ''database is locked''\<rparr>"

definition interrupted_commit_env :: process_env where
  "interrupted_commit_env =
     demo_process_env\<lparr>pe_commit_body := Fails_untouched ''database is locked''\<rparr>"

text \<open>A second run on the same document, which draws other identifiers.\<close>

definition second_run_env :: process_env where
  "second_run_env =
     demo_process_env\<lparr>pe_chroma := quiet_chroma\<lparr>ce_uuid4 := (\<lambda>i. ''again-'' @ replicate i (CHR ''x''))\<rparr>\<rparr>"

subsection \<open>Upload\<close>

text \<open>
  The attributes that the class \<open>Document\<close> declares: its columns, its two relationships,
  its properties and its methods. The constructor that the class gets from the declarative
  base accepts a keyword only if the class has an attribute of that name, and raises
  \<open>TypeError\<close> otherwise.
\<close>

definition document_attributes :: "string list" where
  "document_attributes =
     [''id'', ''user_id'', ''original_filename'', ''stored_filename'', ''file_path'',
      ''mime_type'', ''file_size'', ''file_type'', ''status'', ''error_message'',
      ''chunk_count'', ''total_tokens'', ''embedding_model'', ''created_at'', ''updated_at'',
      ''processed_at'', ''user'', ''chunks'', ''to_dict'', ''is_ready'', ''is_processing'',
      ''has_failed'', ''mark_processing'', ''mark_ready'', ''mark_failed'',
      ''get_file_type_from_mime'', ''get_supported_mime_types'']"

definition Document_init :: "string list \<Rightarrow> document \<Rightarrow> string + document" where
  "Document_init kwargs d =
     (case filter (\<lambda>k. k \<notin> set document_attributes) kwargs of
        [] \<Rightarrow> Inr d
      | k # ks \<Rightarrow> Inl ([CHR 0x27] @ k @ [CHR 0x27] @ '' is an invalid keyword argument for Document''))"

text \<open>The keywords of the call in \<open>save_uploaded_document\<close> (lines 564-574).\<close>

definition upload_kwargs :: "string list" where
  "upload_kwargs =
     [''user_id'', ''project_id'', ''original_filename'', ''stored_filename'', ''file_path'',
      ''mime_type'', ''file_size'', ''file_type'', ''status'']"

text \<open>\<open>DocumentExtractor.SUPPORTED_TYPES\<close> and \<open>is_supported\<close>.\<close>

definition SUPPORTED_TYPES :: "string list" where
  "SUPPORTED_TYPES = [''pdf'', ''txt'', ''md'', ''csv'', ''json'', ''docx'', ''xlsx'']"

definition is_supported :: "string \<Rightarrow> bool" where
  "is_supported file_type = (py_strip_chars ''.'' (py_lower file_type) \<in> set SUPPORTED_TYPES)"

text \<open>
  The uploaded file object, and what the surroundings of one upload do: the two settings
  read, \<open>secure_filename\<close>, \<open>Path.suffix\<close>, the listing of the supported extensions (a set,
  so its order is not fixed), the identifier drawn, whether creating the directory, saving
  the file or reading its size raises, the size read, \<open>mimetypes.guess_type\<close>, and
  whether the commit raises.
\<close>

record upload_file =
  uf_filename :: "string option"

record upload_env =
  ue_rag_enabled :: bool
  ue_max_docs :: int
  ue_secure_filename :: "string \<Rightarrow> string"
  ue_suffix :: "string \<Rightarrow> string"
  ue_supported_listing :: string
  ue_uuid4 :: string
  ue_save_error :: "string option"
  ue_file_size :: int
  ue_guess_type :: "string \<Rightarrow> string option"
  ue_commit_error :: "string option"

record upload_result =
  ur_success :: bool
  ur_document_id :: "nat option"
  ur_error :: "string option"

text \<open>\<open>RAGService.get_user_document_count\<close> and \<open>can_upload_document\<close>.\<close>

definition get_user_document_count :: "(nat \<times> document) list \<Rightarrow> nat \<Rightarrow> int" where
  "get_user_document_count docs user_id =
     int (length (filter (\<lambda>(i, d). doc_user_id d = user_id) docs))"

definition can_upload_document ::
  "upload_env \<Rightarrow> (nat \<times> document) list \<Rightarrow> nat \<Rightarrow> bool \<times> string option" where
  "can_upload_document env docs user_id =
     (if \<not> ue_rag_enabled env then (False, Some ''RAG is disabled'')
      else if get_user_document_count docs user_id \<ge> ue_max_docs env
      then (False, Some (''Maximum document limit reached ('' @ str_int (ue_max_docs env) @ '')''))
      else (True, None))"

text \<open>
  \<open>RAGService.save_uploaded_document\<close>; the table \<open>documents\<close> is the list of its rows with
  their identifiers. The file written to disk is not part of the state.
\<close>

definition upload_failure :: "string option \<Rightarrow> upload_result" where
  "upload_failure e = \<lparr>ur_success = False, ur_document_id = None, ur_error = e\<rparr>"

definition save_uploaded_document ::
  "upload_env \<Rightarrow> (nat \<times> document) list \<Rightarrow> nat \<Rightarrow> upload_file option \<Rightarrow> nat option
     \<Rightarrow> (nat \<times> document) list \<times> upload_result" where
  "save_uploaded_document env docs user_id file project_id =
     (case can_upload_document env docs user_id of
        (False, reason) \<Rightarrow> (docs, upload_failure reason)
      | (True, reason) \<Rightarrow>
          if file = None \<or> \<not> truthy (uf_filename (the file))
          then (docs, upload_failure (Some ''No file provided''))
          else
            (let original_filename = ue_secure_filename env (the (uf_filename (the file)));
                 file_ext = py_strip_chars ''.'' (py_lower (ue_suffix env original_filename))
             in if \<not> is_supported file_ext
                then (docs, upload_failure
                        (Some (''Unsupported file type. Supported: '' @ ue_supported_listing env)))
                else
                  (let stored_filename = ue_uuid4 env @ ''.'' @ file_ext;
                       relative_path = ''rag_documents/'' @ stored_filename
                   in case ue_save_error env of
                        Some e \<Rightarrow> (docs, upload_failure (Some e))
                      | None \<Rightarrow>
                          (let mime_type = (case ue_guess_type env original_filename of
                                              Some m \<Rightarrow> (if m = [] then ''application/octet-stream'' else m)
                                            | None \<Rightarrow> ''application/octet-stream'')
                           in case Document_init upload_kwargs
                                     \<lparr>doc_user_id = user_id,
                                      doc_original_filename = original_filename,
                                      doc_stored_filename = stored_filename,
                                      doc_file_path = relative_path,
                                      doc_mime_type = mime_type,
                                      doc_file_size = ue_file_size env,
                                      doc_file_type = file_ext,
                                      doc_status = ''pending'',
                                      doc_error_message = None,
                                      doc_chunk_count = 0,
                                      doc_total_tokens = 0,
                                      doc_embedding_model = None,
                                      doc_processed_at = None\<rparr> of
                                Inl e \<Rightarrow> (docs, upload_failure (Some e))
                              | Inr document \<Rightarrow>
                                  (case ue_commit_error env of
                                     Some e \<Rightarrow> (docs, upload_failure (Some e))
                                   | None \<Rightarrow>
                                       (let new_id = Suc (fold max (map fst docs) 0)
                                        in (docs @ [(new_id, document)],
                                            \<lparr>ur_success = True, ur_document_id = Some new_id,
                                             ur_error = None\<rparr>)))))))"

definition demo_upload_env :: upload_env where
  "demo_upload_env =
     \<lparr>ue_rag_enabled = True, ue_max_docs = 50,
      ue_secure_filename = (\<lambda>n. n),
      ue_suffix = (\<lambda>n. ''.txt''),
      ue_supported_listing = ''pdf, txt, md, csv, json, docx, xlsx'',
      ue_uuid4 = ''0b0e7a52-7c1b-4d8e-9a3f-1c2d3e4f5a6b'',
      ue_save_error = None, ue_file_size = 12,
      ue_guess_type = (\<lambda>n. Some ''text/plain''),
      ue_commit_error = None\<rparr>"

section \<open>Chat turn: resolving the chat and storing the user message\<close>

text \<open>\<open>app/models/chat.py\<close>: the rows of \<open>chats\<close> and \<open>messages\<close>.\<close>

record chat_row =
  chat_id :: nat
  chat_session_id :: string
  chat_name :: string
  chat_user_id :: nat
  chat_model_provider :: string
  chat_model_name :: "string option"

record message_row =
  mr_id :: nat
  mr_chat_id :: nat
  mr_role :: string
  mr_content :: string
  mr_model_used :: string
  mr_input_tokens :: int
  mr_tokens_used :: int
  mr_tokens_estimated :: bool

record attachment_row =
  ar_message_id :: nat
  ar_attachment :: attachment

record chat_db =
  cd_chats :: "chat_row list"
  cd_messages :: "message_row list"
  cd_attachments :: "attachment_row list"

text \<open>The JSON body of \<open>POST /api/chat\<close>, with the defaults of \<open>data.get\<close> applied.\<close>

record chat_request =
  rq_message :: string
  rq_model :: string
  rq_local_model_provider :: string
  rq_session_id :: "string option"
  rq_model_name :: "string option"
  rq_attachments :: "attachment list"

text \<open>
  What the handler reads from outside: the authenticated user, whether the sensitive
  filter is on and what it does to a text, the identifier drawn for a new session, and the
  token counter.
\<close>

record chat_env =
  cv_current_user_id :: nat
  cv_filter_enabled :: bool
  cv_filter_message :: "string \<Rightarrow> string"
  cv_uuid4 :: string
  cv_count_tokens :: "string \<Rightarrow> int"

text \<open>
  The handler either answers with a status code and an error, or goes on to stream for the
  chat and the stored user message.
\<close>

datatype chat_response = HttpError nat string | Streaming chat_row message_row

definition next_id :: "nat list \<Rightarrow> nat" where
  "next_id ids = Suc (fold max ids 0)"

text \<open>
  \<open>chat()\<close> in \<open>app/routes/chat.py\<close>, lines 135-216: from reading the request to the
  commit of the user message and its attachments. The chat named by the session handle is
  looked up by that handle alone.
\<close>

definition chat :: "chat_env \<Rightarrow> chat_db \<Rightarrow> chat_request \<Rightarrow> chat_db \<times> chat_response" where
  "chat env db data =
     (let message_content0 = py_strip (rq_message data);
          attachments_data = rq_attachments data
      in if message_content0 = [] \<and> attachments_data = []
         then (db, HttpError 400 ''No message or attachments provided'')
         else
           (let message_content =
                  (if cv_filter_enabled env \<and> message_content0 \<noteq> []
                   then cv_filter_message env message_content0 else message_content0);
                model_provider =
                  (if rq_model data = ''simply'' then rq_local_model_provider data
                   else rq_model data);
                model_name = rq_model_name data;
                resolved =
                  (if truthy (rq_session_id data)
                   then (case filter (\<lambda>c. chat_session_id c = the (rq_session_id data))
                                (cd_chats db) of
                           [] \<Rightarrow> Inl (HttpError 404 ''Session not found'')
                         | c # cs \<Rightarrow> Inr (db, c))
                   else
                     (let c = \<lparr>chat_id = next_id (map chat_id (cd_chats db)),
                               chat_session_id = cv_uuid4 env,
                               chat_name = (if message_content \<noteq> []
                                            then py_join '' '' (take 5 (py_split message_content))
                                            else ''New Chat''),
                               chat_user_id = cv_current_user_id env,
                               chat_model_provider = model_provider,
                               chat_model_name = model_name\<rparr>
                      in Inr (db\<lparr>cd_chats := cd_chats db @ [c]\<rparr>, c)))
            in case resolved of
                 Inl response \<Rightarrow> (db, response)
               | Inr (db1, c) \<Rightarrow>
                   (let user_input_tokens =
                          (if message_content \<noteq> [] then cv_count_tokens env message_content else 0);
                        user_msg =
                          \<lparr>mr_id = next_id (map mr_id (cd_messages db1)),
                           mr_chat_id = chat_id c,
                           mr_role = ''user'',
                           mr_content = (if message_content \<noteq> [] then message_content
                                         else ''See attached files''),
                           mr_model_used = (if truthy model_name then the model_name
                                            else model_provider),
                           mr_input_tokens = user_input_tokens,
                           mr_tokens_used = user_input_tokens,
                           mr_tokens_estimated = True\<rparr>
                    in (db1\<lparr>cd_messages := cd_messages db1 @ [user_msg],
                            cd_attachments := cd_attachments db1 @
                              map (\<lambda>a. \<lparr>ar_message_id = mr_id user_msg, ar_attachment = a\<rparr>)
                                  attachments_data\<rparr>,
                        Streaming c user_msg))))"

text \<open>
  A database with one chat, owned by user 1, and a request by user 2 that names that
  chat's session handle.
\<close>

definition alice_chat :: chat_row where
  "alice_chat =
     \<lparr>chat_id = 1, chat_session_id = ''5f3c'', chat_name = ''Holiday plans'',
      chat_user_id = 1, chat_model_provider = ''gemini'', chat_model_name = None\<rparr>"

definition alice_db :: chat_db where
  "alice_db = \<lparr>cd_chats = [alice_chat], cd_messages = [], cd_attachments = []\<rparr>"

definition mallory_env :: chat_env where
  "mallory_env =
     \<lparr>cv_current_user_id = 2, cv_filter_enabled = False, cv_filter_message = (\<lambda>t. t),
      cv_uuid4 = ''9a1d'', cv_count_tokens = (\<lambda>t. int (length t) div 4)\<rparr>"

definition mallory_request :: chat_request where
  "mallory_request =
     \<lparr>rq_message = ''hello'', rq_model = ''gemini'', rq_local_model_provider = ''lmstudio'',
      rq_session_id = Some ''5f3c'', rq_model_name = None, rq_attachments = []\<rparr>"

section \<open>Provider adapter: the event stream\<close>

text \<open>
  \<open>app/services/ai_service.py\<close>. A generator is modelled by the list of the events it
  yields, in order, together with the exception that ends it, if one escapes. The frames
  are the three JSON envelopes \<open>content\<close>, \<open>done\<close> and \<open>error\<close>.
\<close>

record usage =
  us_input_tokens :: int
  us_output_tokens :: int
  us_total_tokens :: int
  us_estimated :: bool

datatype event = Content string | Done string "usage option" | Error string

fun is_terminal :: "event \<Rightarrow> bool" where
  "is_terminal (Content c) = False"
| "is_terminal (Done full_content u) = True"
| "is_terminal (Error m) = True"

text \<open>
  The exceptions that the handlers tell apart: the classes of \<open>requests.exceptions\<close>
  (\<open>ConnectTimeout\<close> is both a \<open>ConnectionError\<close> and a \<open>Timeout\<close>) and any other
  exception; \<open>exc_text\<close> is \<open>str(e)\<close>.
\<close>

datatype exc =
    HTTPError nat string
  | ConnectionError string
  | ConnectTimeout string
  | ReadTimeout string
  | OtherError string

fun exc_text :: "exc \<Rightarrow> string" where
  "exc_text (HTTPError code t) = t"
| "exc_text (ConnectionError t) = t"
| "exc_text (ConnectTimeout t) = t"
| "exc_text (ReadTimeout t) = t"
| "exc_text (OtherError t) = t"

fun is_http_error :: "exc \<Rightarrow> bool" where
  "is_http_error (HTTPError code t) = True"
| "is_http_error e = False"

fun is_connection_error :: "exc \<Rightarrow> bool" where
  "is_connection_error (ConnectionError t) = True"
| "is_connection_error (ConnectTimeout t) = True"
| "is_connection_error e = False"

fun is_timeout :: "exc \<Rightarrow> bool" where
  "is_timeout (ConnectTimeout t) = True"
| "is_timeout (ReadTimeout t) = True"
| "is_timeout e = False"

fun status_code :: "exc \<Rightarrow> nat" where
  "status_code (HTTPError code t) = code"
| "status_code e = 0"

text \<open>
  What the upstream sends, line by line, sorted by the branch of the reading loop that the
  line takes. A string field of a decoded JSON object is absent, \<open>null\<close> or a string.
\<close>

datatype json_str = Absent | Null | Str string

text \<open>
  A line of an OpenAI-compatible stream: empty; without the \<open>data: \<close> prefix; the
  \<open>[DONE]\<close> marker; not decodable as JSON; a decoded chunk with its usage (prompt,
  completion and total tokens, when the key is present and not empty) and the \<open>content\<close>
  of the first choice's delta; or a line whose reading or handling raises.
\<close>

datatype sse_line =
    Blank
  | No_data_prefix
  | Done_marker
  | Bad_json
  | Chunk "(int \<times> int \<times> int) option" json_str
  | Line_raises exc

text \<open>
  A line of the Anthropic stream: a text delta, a \<open>message_delta\<close> or \<open>message_start\<close>
  with the output or input tokens of its usage (when not empty), \<open>message_stop\<close>, or an
  event of another type.
\<close>

datatype anthropic_line =
    A_blank
  | A_no_data_prefix
  | A_bad_json
  | A_text_delta string
  | A_message_delta "int option"
  | A_message_start "int option"
  | A_message_stop
  | A_other_event
  | A_raises exc

text \<open>
  A line of the Ollama stream: a decoded object with the content of its message, its
  \<open>done\<close> flag and its two token counts.
\<close>

datatype ollama_line =
    O_blank
  | O_bad_json
  | O_chunk json_str bool int int
  | O_raises exc

text \<open>
  A chunk of the Gemini SDK stream: its text and its usage metadata (prompt, candidates
  and total token counts), or the exception that the iteration raises.
\<close>

datatype gemini_chunk =
    G_chunk "string option" "(int option \<times> int option \<times> int option) option"
  | G_raises exc

text \<open>
  The surroundings of one call: the settings store and cipher that hold the API keys, the
  model identifier and URL configured for the provider, whether preparing the request
  (reading settings, converting messages and attachments) raises, whether the converted
  messages carry an image, whether opening the request raises, what the upstream then
  sends, and the token counter.
\<close>

record exchange =
  x_settings :: settings
  x_cipher :: "string \<Rightarrow> string option"
  x_model_id :: "string option"
  x_local_url :: string
  x_prepare_error :: "exc option"
  x_has_images :: bool
  x_open_error :: "exc option"
  x_sse_lines :: "sse_line list"
  x_anthropic_lines :: "anthropic_line list"
  x_ollama_lines :: "ollama_line list"
  x_gemini_chunks :: "gemini_chunk list"
  x_count_tokens :: "string \<Rightarrow> int"

text \<open>\<open>AIService._get_user_api_key\<close>.\<close>

definition get_user_api_key :: "exchange \<Rightarrow> string \<Rightarrow> string option" where
  "get_user_api_key x provider =
     (let system_key = get_system_api_key (x_cipher x) (x_settings x) provider
      in if system_key \<noteq> [] then Some system_key else None)"

text \<open>\<open>yield e\<close> followed by the rest of the generator.\<close>

definition yield :: "event \<Rightarrow> event list \<times> 'a \<Rightarrow> event list \<times> 'a" where
  "yield e rest = (e # fst rest, snd rest)"

text \<open>
  A \<open>try\<close> body that ends in an exception has its handler yield one error event; the
  generator then returns.
\<close>

definition handle :: "event list \<times> (exc + unit) \<Rightarrow> (exc \<Rightarrow> string) \<Rightarrow> event list \<times> exc option" where
  "handle body handler =
     (case body of
        (es, Inl e) \<Rightarrow> (es @ [Error (handler e)], None)
      | (es, Inr u) \<Rightarrow> (es, None))"

text \<open>The local estimate of the usage, and the check of a reported output count.\<close>

definition estimate_usage :: "(string \<Rightarrow> int) \<Rightarrow> message list \<Rightarrow> string \<Rightarrow> usage" where
  "estimate_usage count_tokens messages full_content =
     (let output_tokens = count_tokens full_content;
          input_tokens = count_tokens (py_join '' '' (map msg_content messages))
      in \<lparr>us_input_tokens = input_tokens, us_output_tokens = output_tokens,
          us_total_tokens = input_tokens + output_tokens, us_estimated = True\<rparr>)"

definition validate_usage :: "(string \<Rightarrow> int) \<Rightarrow> string \<Rightarrow> usage option \<Rightarrow> usage option" where
  "validate_usage count_tokens full_content usage_data =
     (case usage_data of
        None \<Rightarrow> None
      | Some u \<Rightarrow>
          if full_content \<noteq> [] \<and> us_output_tokens u > max (int (length full_content) * 2) 50
          then Some \<lparr>us_input_tokens = us_input_tokens u,
                     us_output_tokens = count_tokens full_content,
                     us_total_tokens = us_input_tokens u + count_tokens full_content,
                     us_estimated = True\<rparr>
          else Some u)"

definition reported_usage :: "int \<times> int \<times> int \<Rightarrow> usage" where
  "reported_usage t =
     (case t of (p, c, n) \<Rightarrow>
        \<lparr>us_input_tokens = p, us_output_tokens = c, us_total_tokens = n, us_estimated = False\<rparr>)"

definition none_concat :: exc where
  "none_concat = OtherError (''can only concatenate str (not '' @ [CHR 0x22] @ ''NoneType''
                              @ [CHR 0x22] @ '') to str'')"

subsection \<open>Gemini\<close>

text \<open>The loop over the SDK stream (lines 367-376), with the last chunk seen.\<close>

fun gemini_chunks ::
  "gemini_chunk list \<Rightarrow> string \<Rightarrow> gemini_chunk option
     \<Rightarrow> event list \<times> (exc + string \<times> gemini_chunk option)" where
  "gemini_chunks [] full_content last_chunk = ([], Inr (full_content, last_chunk))"
| "gemini_chunks (G_raises e # cs) full_content last_chunk = ([], Inl e)"
| "gemini_chunks (G_chunk text md # cs) full_content last_chunk =
     (if truthy text
      then yield (Content (the text))
             (gemini_chunks cs (full_content @ the text) (Some (G_chunk text md)))
      else gemini_chunks cs full_content (Some (G_chunk text md)))"

definition gemini_usage :: "(string \<Rightarrow> int) \<Rightarrow> message list \<Rightarrow> string \<Rightarrow> gemini_chunk option \<Rightarrow> usage" where
  "gemini_usage count_tokens messages full_content last_chunk =
     (case last_chunk of
        Some (G_chunk text (Some (p, c, n))) \<Rightarrow>
          \<lparr>us_input_tokens = (case p of Some v \<Rightarrow> v | None \<Rightarrow> 0),
           us_output_tokens = (case c of Some v \<Rightarrow> v | None \<Rightarrow> 0),
           us_total_tokens = (case n of Some v \<Rightarrow> v | None \<Rightarrow> 0),
           us_estimated = False\<rparr>
      | _ \<Rightarrow> estimate_usage count_tokens messages full_content)"

definition gemini_error :: "exc \<Rightarrow> string" where
  "gemini_error e =
     (let error_message = exc_text e
      in if contains ''API_KEY_INVALID'' error_message
            \<or> contains ''invalid_api_key'' (py_lower error_message)
         then ''Invalid Gemini API key. Please check your API key in application settings.''
         else if contains ''quota'' (py_lower error_message)
         then ''Gemini API quota exceeded. Please check your API usage.''
         else if contains ''timeout'' (py_lower error_message)
         then ''Request to Gemini API timed out''
         else ''Error communicating with Gemini API: '' @ error_message)"

text \<open>\<open>AIService._get_gemini_response_stream\<close>.\<close>

definition get_gemini_response_stream :: "exchange \<Rightarrow> message list \<Rightarrow> event list \<times> exc option" where
  "get_gemini_response_stream x messages =
     (case get_user_api_key x ''gemini'' of
        None \<Rightarrow>
          ([Error ''Gemini API key not configured. Please add your API key in your application settings.''],
           None)
      | Some api_key \<Rightarrow>
          (case x_prepare_error x of
             Some e \<Rightarrow> ([], Some e)
           | None \<Rightarrow>
               handle
                 (case x_open_error x of
                    Some e \<Rightarrow> ([], Inl e)
                  | None \<Rightarrow>
                      (case gemini_chunks (x_gemini_chunks x) [] None of
                         (es, Inl e) \<Rightarrow> (es, Inl e)
                       | (es, Inr (full_content, last_chunk)) \<Rightarrow>
                           (es @ [Done full_content
                                    (Some (gemini_usage (x_count_tokens x) messages
                                             full_content last_chunk))],
                            Inr ())))
                 gemini_error))"

subsection \<open>OpenAI, xAI and LM Studio\<close>

text \<open>
  The three reading loops of the OpenAI-compatible format. OpenAI yields a delta whose
  content is a non-empty string; xAI and LM Studio yield whenever the key is present, and
  appending a \<open>null\<close> content to the text raises \<open>TypeError\<close>.
\<close>

definition next_usage :: "(int \<times> int \<times> int) option \<Rightarrow> usage option \<Rightarrow> usage option" where
  "next_usage reported usage_data =
     (case reported of Some t \<Rightarrow> Some (reported_usage t) | None \<Rightarrow> usage_data)"

fun openai_lines ::
  "sse_line list \<Rightarrow> string \<Rightarrow> usage option \<Rightarrow> event list \<times> (exc + string \<times> usage option)" where
  "openai_lines [] full_content usage_data = ([], Inr (full_content, usage_data))"
| "openai_lines (Blank # ls) full_content usage_data = openai_lines ls full_content usage_data"
| "openai_lines (No_data_prefix # ls) full_content usage_data =
     openai_lines ls full_content usage_data"
| "openai_lines (Done_marker # ls) full_content usage_data = ([], Inr (full_content, usage_data))"
| "openai_lines (Bad_json # ls) full_content usage_data = openai_lines ls full_content usage_data"
| "openai_lines (Line_raises e # ls) full_content usage_data = ([], Inl e)"
| "openai_lines (Chunk reported (Str content) # ls) full_content usage_data =
     (if content \<noteq> []
      then yield (Content content)
             (openai_lines ls (full_content @ content) (next_usage reported usage_data))
      else openai_lines ls full_content (next_usage reported usage_data))"
| "openai_lines (Chunk reported other # ls) full_content usage_data =
     openai_lines ls full_content (next_usage reported usage_data)"

fun compatible_lines ::
  "sse_line list \<Rightarrow> string \<Rightarrow> usage option \<Rightarrow> event list \<times> (exc + string \<times> usage option)" where
  "compatible_lines [] full_content usage_data = ([], Inr (full_content, usage_data))"
| "compatible_lines (Blank # ls) full_content usage_data =
     compatible_lines ls full_content usage_data"
| "compatible_lines (No_data_prefix # ls) full_content usage_data =
     compatible_lines ls full_content usage_data"
| "compatible_lines (Done_marker # ls) full_content usage_data =
     ([], Inr (full_content, usage_data))"
| "compatible_lines (Bad_json # ls) full_content usage_data =
     compatible_lines ls full_content usage_data"
| "compatible_lines (Line_raises e # ls) full_content usage_data = ([], Inl e)"
| "compatible_lines (Chunk reported (Str content) # ls) full_content usage_data =
     yield (Content content)
       (compatible_lines ls (full_content @ content) (next_usage reported usage_data))"
| "compatible_lines (Chunk reported Null # ls) full_content usage_data = ([], Inl none_concat)"
| "compatible_lines (Chunk reported Absent # ls) full_content usage_data =
     compatible_lines ls full_content (next_usage reported usage_data)"

text \<open>The body of the \<open>try\<close>: open the request, read the lines, yield \<open>done\<close>.\<close>

definition finish ::
  "event list \<times> (exc + string \<times> usage option) \<Rightarrow> (string \<Rightarrow> usage option \<Rightarrow> usage option)
     \<Rightarrow> event list \<times> (exc + unit)" where
  "finish loop final_usage =
     (case loop of
        (es, Inl e) \<Rightarrow> (es, Inl e)
      | (es, Inr (full_content, usage_data)) \<Rightarrow>
          (es @ [Done full_content (final_usage full_content usage_data)], Inr ()))"

definition request ::
  "exchange \<Rightarrow> event list \<times> (exc + string \<times> usage option)
     \<Rightarrow> event list \<times> (exc + string \<times> usage option)" where
  "request x loop = (case x_open_error x of Some e \<Rightarrow> ([], Inl e) | None \<Rightarrow> loop)"

definition cloud_error :: "string \<Rightarrow> exc \<Rightarrow> string" where
  "cloud_error name e =
     (if is_http_error e
      then name @ '' API HTTP Error '' @ str_nat (status_code e) @ '': '' @ exc_text e
      else if is_connection_error e then ''Connection Error to '' @ name @ '' API''
      else if is_timeout e then ''Request to '' @ name @ '' API timed out''
      else ''Error communicating with '' @ name @ '' API: '' @ exc_text e)"

definition no_attribute_lower :: exc where
  "no_attribute_lower =
     OtherError ([CHR 0x27] @ ''NoneType'' @ [CHR 0x27] @ '' object has no attribute ''
                 @ [CHR 0x27] @ ''lower'' @ [CHR 0x27])"

text \<open>\<open>AIService._get_openai_response_stream\<close>.\<close>

definition get_openai_response_stream ::
  "exchange \<Rightarrow> message list \<Rightarrow> string option \<Rightarrow> event list \<times> exc option" where
  "get_openai_response_stream x messages model_name0 =
     (case get_user_api_key x ''openai'' of
        None \<Rightarrow>
          ([Error ''OpenAI API key not configured. Please add your API key in your application settings.''],
           None)
      | Some api_key \<Rightarrow>
          (let model_name = (case model_name0 of None \<Rightarrow> x_model_id x | Some m \<Rightarrow> Some m)
           in case x_prepare_error x of
                Some e \<Rightarrow> ([], Some e)
              | None \<Rightarrow>
                  if x_has_images x \<and> model_name = None then ([], Some no_attribute_lower)
                  else if x_has_images x \<and>
                          list_all (\<lambda>k. \<not> contains k (py_lower (the model_name)))
                            [''gpt-4'', ''gpt-5'', ''vision'']
                  then ([Error (''Model '' @ the model_name @
                                '' does not support image inputs. Please use a vision-capable model.'')],
                        None)
                  else handle
                         (finish (request x (openai_lines (x_sse_lines x) [] None))
                            (validate_usage (x_count_tokens x)))
                         (cloud_error ''OpenAI'')))"

text \<open>\<open>AIService._get_grok_response_stream\<close>.\<close>

definition get_grok_response_stream ::
  "exchange \<Rightarrow> message list \<Rightarrow> string option \<Rightarrow> event list \<times> exc option" where
  "get_grok_response_stream x messages model_name0 =
     (case get_user_api_key x ''xai'' of
        None \<Rightarrow>
          ([Error ''xAI API key not configured. Please add your API key in your application settings.''],
           None)
      | Some api_key \<Rightarrow>
          (case x_prepare_error x of
             Some e \<Rightarrow> ([], Some e)
           | None \<Rightarrow>
               handle
                 (finish (request x (compatible_lines (x_sse_lines x) [] None))
                    (validate_usage (x_count_tokens x)))
                 (cloud_error ''xAI'')))"

text \<open>
  \<open>AIService._get_lmstudio_response_stream\<close>; an image among the attachments is refused
  unless the caller's vision toggle is on. Its handlers test \<open>ConnectionError\<close> first.
\<close>

definition messages_have_images :: "message list \<Rightarrow> bool" where
  "messages_have_images messages =
     list_ex (\<lambda>m. list_ex (\<lambda>a. att_file_type a = ''image'') (msg_attachments m)) messages"

definition vision_refused :: string where
  "vision_refused = ''Enable vision support using the eye icon button next to attachments if using a vision-capable model.''"

definition lmstudio_error :: "string \<Rightarrow> exc \<Rightarrow> string" where
  "lmstudio_error url e =
     (if is_connection_error e
      then ''Connection Error to LM Studio: Please ensure LM Studio is running at '' @ url
      else if is_http_error e then ''LM Studio HTTP Error: '' @ exc_text e
      else if is_timeout e then ''Request to LM Studio timed out''
      else ''Error communicating with LM Studio: '' @ exc_text e)"

definition local_usage ::
  "(string \<Rightarrow> int) \<Rightarrow> message list \<Rightarrow> string \<Rightarrow> usage option \<Rightarrow> usage option" where
  "local_usage count_tokens messages full_content usage_data =
     (case usage_data of
        None \<Rightarrow> Some (estimate_usage count_tokens messages full_content)
      | Some u \<Rightarrow> Some u)"

definition get_lmstudio_response_stream ::
  "exchange \<Rightarrow> message list \<Rightarrow> string option \<Rightarrow> bool \<Rightarrow> event list \<times> exc option" where
  "get_lmstudio_response_stream x messages model_name0 vision_enabled =
     (if messages_have_images messages \<and> \<not> vision_enabled then ([Error vision_refused], None)
      else case x_prepare_error x of
             Some e \<Rightarrow> ([], Some e)
           | None \<Rightarrow>
               handle
                 (finish (request x (compatible_lines (x_sse_lines x) [] None))
                    (local_usage (x_count_tokens x) messages))
                 (lmstudio_error (x_local_url x)))"

subsection \<open>Anthropic\<close>

fun anthropic_lines ::
  "anthropic_line list \<Rightarrow> string \<Rightarrow> usage option
     \<Rightarrow> event list \<times> (exc + string \<times> usage option)" where
  "anthropic_lines [] full_content usage_data = ([], Inr (full_content, usage_data))"
| "anthropic_lines (A_blank # ls) full_content usage_data =
     anthropic_lines ls full_content usage_data"
| "anthropic_lines (A_no_data_prefix # ls) full_content usage_data =
     anthropic_lines ls full_content usage_data"
| "anthropic_lines (A_bad_json # ls) full_content usage_data =
     anthropic_lines ls full_content usage_data"
| "anthropic_lines (A_other_event # ls) full_content usage_data =
     anthropic_lines ls full_content usage_data"
| "anthropic_lines (A_raises e # ls) full_content usage_data = ([], Inl e)"
| "anthropic_lines (A_message_stop # ls) full_content usage_data =
     ([], Inr (full_content, usage_data))"
| "anthropic_lines (A_text_delta content # ls) full_content usage_data =
     yield (Content content) (anthropic_lines ls (full_content @ content) usage_data)"
| "anthropic_lines (A_message_delta None # ls) full_content usage_data =
     anthropic_lines ls full_content usage_data"
| "anthropic_lines (A_message_delta (Some output_tokens) # ls) full_content usage_data =
     anthropic_lines ls full_content
       (case usage_data of
          Some u \<Rightarrow> Some (u\<lparr>us_output_tokens := output_tokens,
                             us_total_tokens := us_input_tokens u + output_tokens\<rparr>)
        | None \<Rightarrow> Some \<lparr>us_input_tokens = 0, us_output_tokens = output_tokens,
                         us_total_tokens = output_tokens, us_estimated = False\<rparr>)"
| "anthropic_lines (A_message_start None # ls) full_content usage_data =
     anthropic_lines ls full_content usage_data"
| "anthropic_lines (A_message_start (Some input_tokens) # ls) full_content usage_data =
     anthropic_lines ls full_content
       (Some \<lparr>us_input_tokens = input_tokens, us_output_tokens = 0,
              us_total_tokens = input_tokens, us_estimated = False\<rparr>)"

text \<open>\<open>AIService._get_anthropic_response_stream\<close>.\<close>

definition get_anthropic_response_stream ::
  "exchange \<Rightarrow> message list \<Rightarrow> string option \<Rightarrow> event list \<times> exc option" where
  "get_anthropic_response_stream x messages model_name0 =
     (case get_user_api_key x ''anthropic'' of
        None \<Rightarrow>
          ([Error ''Anthropic API key not configured. Please add your API key in your application settings.''],
           None)
      | Some api_key \<Rightarrow>
          (case x_prepare_error x of
             Some e \<Rightarrow> ([], Some e)
           | None \<Rightarrow>
               handle
                 (finish (request x (anthropic_lines (x_anthropic_lines x) [] None))
                    (validate_usage (x_count_tokens x)))
                 (cloud_error ''Anthropic'')))"

subsection \<open>Ollama\<close>

fun ollama_lines ::
  "ollama_line list \<Rightarrow> string \<Rightarrow> usage option
     \<Rightarrow> event list \<times> (exc + string \<times> usage option)" where
  "ollama_lines [] full_content usage_data = ([], Inr (full_content, usage_data))"
| "ollama_lines (O_blank # ls) full_content usage_data = ollama_lines ls full_content usage_data"
| "ollama_lines (O_bad_json # ls) full_content usage_data =
     ollama_lines ls full_content usage_data"
| "ollama_lines (O_raises e # ls) full_content usage_data = ([], Inl e)"
| "ollama_lines (O_chunk Null done prompt_tokens output_tokens # ls) full_content usage_data =
     ([], Inl none_concat)"
| "ollama_lines (O_chunk Absent done prompt_tokens output_tokens # ls) full_content usage_data =
     (if done
      then ([], Inr (full_content,
                     if prompt_tokens \<noteq> 0 \<or> output_tokens \<noteq> 0
                     then Some (reported_usage
                                  (prompt_tokens, output_tokens, prompt_tokens + output_tokens))
                     else usage_data))
      else ollama_lines ls full_content usage_data)"
| "ollama_lines (O_chunk (Str content) done prompt_tokens output_tokens # ls) full_content
       usage_data =
     yield (Content content)
       (if done
        then ([], Inr (full_content @ content,
                       if prompt_tokens \<noteq> 0 \<or> output_tokens \<noteq> 0
                       then Some (reported_usage
                                    (prompt_tokens, output_tokens, prompt_tokens + output_tokens))
                       else usage_data))
        else ollama_lines ls (full_content @ content) usage_data)"

definition ollama_error :: "string \<Rightarrow> exc \<Rightarrow> string" where
  "ollama_error url e =
     (if is_connection_error e
      then ''Connection Error to Ollama: Please ensure Ollama is running at '' @ url
      else if is_http_error e then ''Ollama HTTP Error: '' @ exc_text e
      else if is_timeout e then ''Request to Ollama timed out''
      else ''Error communicating with Ollama: '' @ exc_text e)"

text \<open>\<open>AIService._get_ollama_response_stream\<close>.\<close>

definition get_ollama_response_stream ::
  "exchange \<Rightarrow> message list \<Rightarrow> string option \<Rightarrow> bool \<Rightarrow> event list \<times> exc option" where
  "get_ollama_response_stream x messages model_name0 vision_enabled =
     (if messages_have_images messages \<and> \<not> vision_enabled then ([Error vision_refused], None)
      else case x_prepare_error x of
             Some e \<Rightarrow> ([], Some e)
           | None \<Rightarrow>
               handle
                 (finish (request x (ollama_lines (x_ollama_lines x) [] None))
                    (local_usage (x_count_tokens x) messages))
                 (ollama_error (x_local_url x)))"

subsection \<open>The stream operation\<close>

text \<open>
  \<open>AIService.get_response_stream\<close>: the provider name is normalised, the system messages
  are injected, and the events of the provider's generator are passed on; an exception
  that escapes that generator becomes one more error event.
\<close>

definition normalize_provider :: "string \<Rightarrow> string" where
  "normalize_provider provider0 =
     (let provider = py_lower provider0
      in if provider = ''lm_studio'' then ''lmstudio'' else provider)"

definition get_response_stream ::
  "exchange \<Rightarrow> message list \<Rightarrow> string \<Rightarrow> string option \<Rightarrow> string option \<Rightarrow> string option
     \<Rightarrow> bool \<Rightarrow> event list" where
  "get_response_stream x messages0 provider0 model_name rag_context age_system_prompt
       local_vision_enabled =
     (let provider = normalize_provider provider0;
          messages = inject_system_messages messages0 rag_context age_system_prompt;
          delegated =
            (if provider = ''gemini'' then get_gemini_response_stream x messages
             else if provider = ''openai'' then get_openai_response_stream x messages model_name
             else if provider = ''anthropic''
             then get_anthropic_response_stream x messages model_name
             else if provider = ''xai'' then get_grok_response_stream x messages model_name
             else if provider = ''lmstudio''
             then get_lmstudio_response_stream x messages model_name local_vision_enabled
             else if provider = ''ollama''
             then get_ollama_response_stream x messages model_name local_vision_enabled
             else ([Error (''Unknown provider: '' @ provider)], None))
      in case delegated of
           (es, None) \<Rightarrow> es
         | (es, Some e) \<Rightarrow> es @ [Error (exc_text e)])"

text \<open>
  The shape asked of an event sequence: it is not empty, its last event is terminal, and
  it holds one terminal event in all. A generator that returns has yielded such a
  sequence; one that is ended by an exception has yielded no terminal event.
\<close>

definition one_terminal_last :: "event list \<Rightarrow> bool" where
  "one_terminal_last es =
     (es \<noteq> [] \<and> is_terminal (last es) \<and> length (filter is_terminal es) = 1)"

definition generator_shape :: "event list \<times> exc option \<Rightarrow> bool" where
  "generator_shape g =
     (case g of
        (es, None) \<Rightarrow> one_terminal_last es
      | (es, Some e) \<Rightarrow> filter is_terminal es = [])"

text \<open>
  A call to OpenAI with a stored key, whose upstream sends two deltas, a keep-alive line,
  the usage and the end marker.
\<close>

definition demo_exchange :: exchange where
  "demo_exchange =
     \<lparr>x_settings = demo_settings, x_cipher = Some, x_model_id = Some ''gpt-4o'',
      x_local_url = ''http://localhost:1234/v1/chat/completions'',
      x_prepare_error = None, x_has_images = False, x_open_error = None,
      x_sse_lines = [Chunk None (Str ''Hel''), Blank, Chunk None (Str ''lo''),
                     Chunk (Some (3, 2, 5)) Absent, Done_marker],
      x_anthropic_lines = [], x_ollama_lines = [], x_gemini_chunks = [],
      x_count_tokens = (\<lambda>t. int (length t) div 4)\<rparr>"

section \<open>Regular expressions\<close>

text \<open>
  The patterns of the filter and of the chunker are terms of a small language of regular
  expressions, matched as Python's \<open>re\<close> matches them: by backtracking, alternatives in
  the order written, repetitions greedy unless marked lazy. Matching from a position
  yields every way the expression can match there, best first; the match is the first.
  A state is the character before the position, the text from the position on, and the
  groups captured so far.

  \<open>\d\<close>, \<open>\s\<close> and \<open>\w\<close> are those of a \<open>str\<close> pattern, for code points below 256.
  Under \<open>IGNORECASE\<close> a character is lowered before it is compared with a lowered
  literal, or looked up in a set that holds the lowered members of its ranges. A
  repetition stops at an iteration that consumes nothing.
\<close>

definition py_isdigit :: "char \<Rightarrow> bool" where
  "py_isdigit c = (let n = (of_char c :: int) in 48 \<le> n \<and> n \<le> 57)"

definition py_isword :: "char \<Rightarrow> bool" where
  "py_isword c =
     (let n = (of_char c :: int)
      in if n \<le> 122
         then (if n \<le> 57 then 48 \<le> n
               else if n \<le> 90 then 65 \<le> n
               else n = 95 \<or> 97 \<le> n)
         else n = 170 \<or> n = 178 \<or> n = 179 \<or> n = 181 \<or> n = 185 \<or> n = 186
              \<or> (188 \<le> n \<and> n \<le> 190) \<or> (192 \<le> n \<and> n \<le> 214)
              \<or> (216 \<le> n \<and> n \<le> 246) \<or> (248 \<le> n \<and> n \<le> 255))"

datatype cset_item = Range char char | One char | Space | Digit

datatype regex =
    Lit string
  | Set bool "cset_item list"
  | Word_boundary
  | End_of_string
  | Cat regex regex
  | Alt regex regex
  | Rep bool nat "nat option" regex
  | Group nat regex
  | Not_ahead regex
  | Ahead regex
  | Behind "cset_item list"

type_synonym mstate = "char option \<times> string \<times> (nat \<times> string) list"

definition clear_case_bit :: "char \<Rightarrow> char" where
  "clear_case_bit c = (case c of Char b0 b1 b2 b3 b4 b5 b6 b7 \<Rightarrow> Char b0 b1 b2 b3 b4 False b6 b7)"

definition in_range :: "char \<Rightarrow> char \<Rightarrow> char \<Rightarrow> bool" where
  "in_range lo hi c = ((of_char lo :: int) \<le> of_char c \<and> (of_char c :: int) \<le> of_char hi)"

definition item_match :: "bool \<Rightarrow> cset_item \<Rightarrow> char \<Rightarrow> bool" where
  "item_match ci item c =
     (case item of
        Range lo hi \<Rightarrow>
          in_range lo hi c \<or>
          (ci \<and> py_lower_char (clear_case_bit c) = c \<and> in_range lo hi (clear_case_bit c))
      | One x \<Rightarrow> (if ci then py_lower_char x = c else x = c)
      | Space \<Rightarrow> py_isspace c
      | Digit \<Rightarrow> py_isdigit c)"

definition set_match :: "bool \<Rightarrow> bool \<Rightarrow> cset_item list \<Rightarrow> char \<Rightarrow> bool" where
  "set_match ci negated items c =
     (list_ex (\<lambda>item. item_match ci item (if ci then py_lower_char c else c)) items \<noteq> negated)"

fun lit_match :: "bool \<Rightarrow> string \<Rightarrow> string \<Rightarrow> (char \<times> string) option" where
  "lit_match ci [] rest = None"
| "lit_match ci (p # ps) [] = None"
| "lit_match ci [p] (c # cs) =
     (if (if ci then py_lower_char p = py_lower_char c else p = c) then Some (c, cs) else None)"
| "lit_match ci (p # q # ps) (c # cs) =
     (if (if ci then py_lower_char p = py_lower_char c else p = c)
      then lit_match ci (q # ps) cs else None)"

fun rep_states ::
  "(mstate \<Rightarrow> mstate list) \<Rightarrow> bool \<Rightarrow> nat \<Rightarrow> nat option \<Rightarrow> nat \<Rightarrow> nat \<Rightarrow> mstate \<Rightarrow> mstate list" where
  "rep_states body lazy lo hi 0 k s = (if lo \<le> k then [s] else [])"
| "rep_states body lazy lo hi (Suc fuel) k s =
     (let again = (if (case hi of None \<Rightarrow> True | Some h \<Rightarrow> k < h)
                   then concat (map (rep_states body lazy lo hi fuel (Suc k))
                                  (filter (\<lambda>s'. length (fst (snd s')) < length (fst (snd s)))
                                     (body s)))
                   else []);
          stop = (if lo \<le> k then [s] else [])
      in if lazy then stop @ again else again @ stop)"

primrec states :: "bool \<Rightarrow> regex \<Rightarrow> mstate \<Rightarrow> mstate list" where
  "states ci (Lit ps) s =
     (if ps = [] then [s]
      else case lit_match ci ps (fst (snd s)) of
             None \<Rightarrow> []
           | Some (c, rest) \<Rightarrow> [(Some c, rest, snd (snd s))])"
| "states ci (Set negated items) s =
     (case fst (snd s) of
        [] \<Rightarrow> []
      | c # rest \<Rightarrow> if set_match ci negated items c then [(Some c, rest, snd (snd s))] else [])"
| "states ci Word_boundary s =
     (let word_on_left = (case fst s of None \<Rightarrow> False | Some c \<Rightarrow> py_isword c);
          word_on_right = (case fst (snd s) of [] \<Rightarrow> False | c # rest \<Rightarrow> py_isword c)
      in if word_on_left \<noteq> word_on_right then [s] else [])"
| "states ci End_of_string s =
     (if fst (snd s) = [] \<or> fst (snd s) = [CHR 0x0A] then [s] else [])"
| "states ci (Cat a b) s = concat (map (states ci b) (states ci a s))"
| "states ci (Alt a b) s = states ci a s @ states ci b s"
| "states ci (Rep lazy lo hi r) s =
     rep_states (states ci r) lazy lo hi (Suc (length (fst (snd s)))) 0 s"
| "states ci (Group n r) s =
     map (\<lambda>s'. (fst s', fst (snd s'),
                 (n, take (length (fst (snd s)) - length (fst (snd s'))) (fst (snd s)))
                 # snd (snd s')))
         (states ci r s)"
| "states ci (Not_ahead r) s = (if states ci r s = [] then [s] else [])"
| "states ci (Ahead r) s = (if states ci r s = [] then [] else [s])"
| "states ci (Behind items) s =
     (case fst s of None \<Rightarrow> [] | Some c \<Rightarrow> if set_match ci False items c then [s] else [])"

text \<open>
  The matches of \<open>finditer\<close>, \<open>sub\<close> and \<open>split\<close>: the text is scanned from the left, the
  first position with a match gives the next match, and scanning goes on after it. After
  an empty match the next one at the same position has to be non-empty. \<open>scan\<close> returns
  each match with the text skipped before it, and the text after the last match; its
  third argument counts the characters of the current match still to be passed over.
\<close>

record rmatch =
  m_text :: string
  m_groups :: "(nat \<times> string) list"

definition group :: "rmatch \<Rightarrow> nat \<Rightarrow> string" where
  "group m n = (case map_of (m_groups m) n of Some t \<Rightarrow> t | None \<Rightarrow> [])"

definition match_of :: "string \<Rightarrow> mstate \<Rightarrow> rmatch" where
  "match_of text s =
     \<lparr>m_text = take (length text - length (fst (snd s))) text, m_groups = snd (snd s)\<rparr>"

definition pick :: "bool \<Rightarrow> string \<Rightarrow> mstate list \<Rightarrow> rmatch option" where
  "pick must_advance text candidates =
     (case (if must_advance
            then filter (\<lambda>s. length (fst (snd s)) < length text) candidates
            else candidates) of
        [] \<Rightarrow> None
      | s # ss \<Rightarrow> Some (match_of text s))"

fun seq :: "regex list \<Rightarrow> regex" where
  "seq [] = Lit []"
| "seq [r] = r"
| "seq (r # q # rs) = Cat r (seq (q # rs))"

fun scan ::
  "bool \<Rightarrow> regex \<Rightarrow> nat \<Rightarrow> char option \<Rightarrow> string \<Rightarrow> string \<Rightarrow> (string \<times> rmatch) list \<times> string" where
  "scan ci r skip prev acc [] =
     (case pick False [] (states ci r (prev, [], [])) of
        None \<Rightarrow> ([], acc)
      | Some m \<Rightarrow> ([(acc, m)], []))"
| "scan ci r (Suc n) prev acc (c # cs) = scan ci r n (Some c) acc cs"
| "scan ci r 0 prev acc (c # cs) =
     (case pick False (c # cs) (states ci r (prev, c # cs, [])) of
        None \<Rightarrow> scan ci r 0 (Some c) (acc @ [c]) cs
      | Some m \<Rightarrow>
          if m_text m \<noteq> []
          then (case scan ci r (length (m_text m) - 1) (Some c) [] cs of
                  (found, rest) \<Rightarrow> ((acc, m) # found, rest))
          else (case pick True (c # cs) (states ci r (prev, c # cs, [])) of
                  None \<Rightarrow>
                    (case scan ci r 0 (Some c) [c] cs of
                       (found, rest) \<Rightarrow> ((acc, m) # found, rest))
                | Some m2 \<Rightarrow>
                    (case scan ci r (length (m_text m2) - 1) (Some c) [] cs of
                       (found, rest) \<Rightarrow> ((acc, m) # ([], m2) # found, rest))))"

definition finditer :: "bool \<Rightarrow> regex \<Rightarrow> string \<Rightarrow> rmatch list" where
  "finditer ci r text = map snd (fst (scan ci r 0 None [] text))"

definition re_search :: "bool \<Rightarrow> regex \<Rightarrow> string \<Rightarrow> rmatch option" where
  "re_search ci r text = (case finditer ci r text of [] \<Rightarrow> None | m # ms \<Rightarrow> Some m)"

definition re_sub :: "bool \<Rightarrow> regex \<Rightarrow> (rmatch \<Rightarrow> string) \<Rightarrow> string \<Rightarrow> string" where
  "re_sub ci r repl text =
     (case scan ci r 0 None [] text of
        (found, rest) \<Rightarrow> concat (map (\<lambda>(skipped, m). skipped @ repl m) found) @ rest)"

definition re_split :: "bool \<Rightarrow> regex \<Rightarrow> string \<Rightarrow> string list" where
  "re_split ci r text =
     (case scan ci r 0 None [] text of (found, rest) \<Rightarrow> map fst found @ [rest])"

text \<open>\<open>s.replace(old, new)\<close>: every occurrence of \<open>old\<close>, from the left, not overlapping.\<close>

fun replace_from :: "string \<Rightarrow> string \<Rightarrow> nat \<Rightarrow> string \<Rightarrow> string" where
  "replace_from old new skip [] = []"
| "replace_from old new (Suc n) (c # cs) = replace_from old new n cs"
| "replace_from old new 0 (c # cs) =
     (if starts_with old (c # cs) then new @ replace_from old new (length old - 1) cs
      else c # replace_from old new 0 cs)"

definition str_replace :: "string \<Rightarrow> string \<Rightarrow> string \<Rightarrow> string" where
  "str_replace old new s =
     (if old = [] then new @ concat (map (\<lambda>c. c # new) s) else replace_from old new 0 s)"


section \<open>Sensitive-information filter\<close>

text \<open>
  \<open>app/services/sensitive_info_filter.py\<close>. \<open>PATTERNS\<close> is the dictionary in its order
  of insertion; a replacement is either a fixed string or a function of the match. All
  patterns are used with \<open>re.IGNORECASE | re.MULTILINE\<close>; none of them holds \<open>^\<close> or
  \<open>$\<close>, the only constructs that \<open>MULTILINE\<close> changes.
\<close>

definition opt :: "regex \<Rightarrow> regex" where "opt r = Rep False 0 (Some 1) r"
definition star :: "regex \<Rightarrow> regex" where "star r = Rep False 0 None r"
definition plus :: "regex \<Rightarrow> regex" where "plus r = Rep False 1 None r"
definition lazy_star :: "regex \<Rightarrow> regex" where "lazy_star r = Rep True 0 None r"
definition times :: "nat \<Rightarrow> regex \<Rightarrow> regex" where "times n r = Rep False n (Some n) r"
definition at_least :: "nat \<Rightarrow> regex \<Rightarrow> regex" where "at_least n r = Rep False n None r"

fun alts :: "string list \<Rightarrow> regex" where
  "alts [] = Set False []"
| "alts [x] = Lit x"
| "alts (x # y # ys) = Alt (Lit x) (alts (y # ys))"

definition digit :: regex where "digit = Set False [Digit]"
definition space :: regex where "space = Set False [Space]"
definition alnum :: "cset_item list" where
  "alnum = [Range (CHR ''a'') (CHR ''z''), Range (CHR ''A'') (CHR ''Z''), Range (CHR ''0'') (CHR ''9'')]"
definition key_chars :: "cset_item list" where
  "key_chars = alnum @ [One (CHR ''-''), One (CHR ''_'')]"
definition quote :: regex where "quote = Set False [One (CHR 0x22), One (CHR 0x27)]"
definition colon_or_equals :: regex where "colon_or_equals = Set False [One (CHR '':''), One (CHR ''='')]"
definition dash_or_space :: regex where "dash_or_space = Set False [One (CHR ''-''), Space]"
definition any_char :: regex where "any_char = Set True []"

datatype replacement = Fixed string | Computed "rmatch \<Rightarrow> string"

definition key_kinds :: regex where
  "key_kinds = opt (alts [''RSA '', ''EC '', ''DSA '', ''ED25519 '', ''OPENSSH '', ''ENCRYPTED ''])"

definition PATTERNS :: "(string \<times> regex \<times> replacement) list" where
  "PATTERNS =
    [(''anthropic_key'',
      seq [Word_boundary,
           Group 1 (seq [Lit ''sk-ant-'', opt (seq [Lit ''api'', plus digit, Lit ''-'']),
                         at_least 20 (Set False key_chars)]),
           Word_boundary],
      Fixed ''[ANTHROPIC_KEY_REDACTED]''),
     (''openai_key'',
      seq [Word_boundary,
           Group 1 (seq [Lit ''sk-'', Not_ahead (Lit ''ant-''), opt (alts [''proj-'', ''svcacct-'']),
                         at_least 20 (Set False key_chars)]),
           Word_boundary],
      Fixed ''[OPENAI_KEY_REDACTED]''),
     (''google_api_key'',
      seq [Word_boundary, Group 1 (seq [Lit ''AIza'', times 35 (Set False key_chars)]),
           Word_boundary],
      Fixed ''[GOOGLE_KEY_REDACTED]''),
     (''aws_access_key'',
      seq [Word_boundary,
           Group 1 (seq [Lit ''AKIA'',
                         times 16 (Set False [Range (CHR ''0'') (CHR ''9''),
                                              Range (CHR ''A'') (CHR ''Z'')])]),
           Word_boundary],
      Fixed ''[AWS_ACCESS_KEY_REDACTED]''),
     (''aws_secret_key'',
      seq [Group 1 (seq [Lit ''aws_secret_access_key'', opt quote, star space, colon_or_equals,
                         star space, opt quote]),
           Group 2 (times 40 (Set False (alnum @ [One (CHR ''/''), One (CHR ''+''), One (CHR ''='')]))),
           Group 3 (opt quote)],
      Computed (\<lambda>m. group m 1 @ ''[AWS_SECRET_REDACTED]'' @ group m 3)),
     (''github_token'',
      seq [Word_boundary,
           Group 1 (seq [Lit ''gh'',
                         Set False [One (CHR ''p''), One (CHR ''s''), One (CHR ''r''), One (CHR ''o'')],
                         Lit ''_'', at_least 36 (Set False alnum)]),
           Word_boundary],
      Fixed ''[GITHUB_TOKEN_REDACTED]''),
     (''xai_key'',
      seq [Word_boundary, Group 1 (seq [Lit ''xai-'', at_least 20 (Set False key_chars)]),
           Word_boundary],
      Fixed ''[XAI_KEY_REDACTED]''),
     (''generic_api_key'',
      seq [Group 1 (seq [Lit ''api'', opt (Set False [One (CHR ''_''), One (CHR ''-'')]), Lit ''key'',
                         star space, colon_or_equals, star space, opt quote]),
           Group 2 (at_least 20 (Set False key_chars)),
           Group 3 (opt quote)],
      Computed (\<lambda>m. group m 1 @ ''[API_KEY_REDACTED]'' @ group m 3)),
     (''bearer_token'',
      seq [Group 1 (seq [Word_boundary, Set False [One (CHR ''B''), One (CHR ''b'')], Lit ''earer'',
                         plus space]),
           Group 2 (at_least 20 (Set False (key_chars @ [One (CHR ''.'')]))),
           Word_boundary],
      Computed (\<lambda>m. group m 1 @ ''[TOKEN_REDACTED]'')),
     (''jwt_token'',
      seq [Word_boundary, Lit ''eyJ'', plus (Set False (key_chars @ [One (CHR ''='')])),
           Lit ''.'', Lit ''eyJ'', plus (Set False (key_chars @ [One (CHR ''='')])),
           Lit ''.'', plus (Set False (key_chars @ [One (CHR ''='')])), Word_boundary],
      Fixed ''[JWT_REDACTED]''),
     (''private_key'',
      seq [Lit ''-----BEGIN '', key_kinds, Lit ''PRIVATE KEY-----'', lazy_star any_char,
           Lit ''-----END '', key_kinds, Lit ''PRIVATE KEY-----''],
      Fixed ''[PRIVATE_KEY_REDACTED]''),
     (''db_connection'',
      seq [Group 1 (seq [Alt (seq [Lit ''postgres'', opt (Lit ''ql'')])
                           (Alt (Lit ''mysql'')
                              (Alt (Lit ''mariadb'')
                                 (Alt (seq [Lit ''mongodb'', opt (Lit ''+srv'')])
                                    (alts [''redis'', ''mssql'', ''sqlserver''])))),
                         Lit ''://'', plus (Set True [One (CHR '':'')]), Lit '':'']),
           Group 2 (plus (Set True [One (CHR ''@'')])),
           Group 3 (seq [Lit ''@'', plus (Set True [Space])])],
      Computed (\<lambda>m. group m 1 @ ''[PASSWORD_REDACTED]'' @ group m 3)),
     (''password_assignment'',
      seq [Group 1 (seq [alts [''password'', ''passwd'', ''pwd''], star space, colon_or_equals,
                         star space, opt quote]),
           Group 2 (at_least 6 (Set True [Space, One (CHR 0x22), One (CHR 0x27)])),
           Group 3 (opt quote)],
      Computed (\<lambda>m. group m 1 @ ''[PASSWORD_REDACTED]'' @ group m 3)),
     (''password_phrase'',
      seq [Group 1 (seq [opt (alts [''my '', ''the '']), Lit ''password is'', plus space]),
           Group 2 (at_least 6 (Set True [Space]))],
      Computed (\<lambda>m. group m 1 @ ''[PASSWORD_REDACTED]'')),
     (''credit_card'',
      seq [Word_boundary,
           Group 1 (seq [Set False [Range (CHR ''3'') (CHR ''6'')], times 3 digit, opt dash_or_space,
                         times 4 digit, opt dash_or_space, times 4 digit, opt dash_or_space,
                         times 4 digit]),
           Word_boundary],
      Fixed ''[CARD_REDACTED]''),
     (''ssn'',
      seq [Word_boundary,
           Group 1 (seq [times 3 digit, opt dash_or_space, times 2 digit, opt dash_or_space,
                         times 4 digit]),
           Word_boundary],
      Fixed ''[SSN_REDACTED]''),
     (''sa_id_number'',
      seq [Group 1 (seq [Alt (seq [Lit ''identity'', star space, alts [''number'', ''no'']])
                             (seq [Lit ''id'', star space, alts [''number'', ''no'']]),
                         star space, Set False [One (CHR '':'')], star space]),
           Group 2 (times 13 digit),
           Word_boundary],
      Computed (\<lambda>m. group m 1 @ ''[ID_REDACTED]'')),
     (''url_with_password'',
      seq [Group 1 (seq [Lit ''http'', opt (Lit ''s''), Lit ''://'',
                         plus (Set False (alnum @ [One (CHR ''.''), One (CHR ''_''), One (CHR ''-'')])),
                         Lit '':'']),
           Group 2 (plus (Set True [One (CHR ''@''), Space])),
           Group 3 (seq [Lit ''@'', plus (Set True [Space])])],
      Computed (\<lambda>m. group m 1 @ ''[PASSWORD_REDACTED]'' @ group m 3)),
     (''secret_assignment'',
      seq [Group 1 (seq [alts [''secret'', ''client_secret'', ''app_secret'', ''api_secret''],
                         star space, colon_or_equals, star space, quote]),
           Group 2 (at_least 16 (Set False key_chars)),
           Group 3 quote],
      Computed (\<lambda>m. group m 1 @ ''[SECRET_REDACTED]'' @ group m 3)),
     (''env_secret'',
      seq [Group 1 (seq [star (Set False [Range (CHR ''A'') (CHR ''Z''), One (CHR ''_'')]),
                         alts [''SECRET'', ''TOKEN'', ''PASSWORD'', ''API_KEY''],
                         star (Set False [Range (CHR ''A'') (CHR ''Z''), One (CHR ''_'')]),
                         star space, Lit ''='', star space, opt quote]),
           Group 2 (at_least 16 (Set False (key_chars @ [One (CHR ''/''), One (CHR ''+''),
                                                        One (CHR ''='')]))),
           Group 3 (opt quote)],
      Computed (\<lambda>m. group m 1 @ ''[REDACTED]'' @ group m 3))]"

text \<open>
  \<open>SensitiveInfoFilter.filter_text\<close>: for each pattern, the matches in the text as it is
  when the pattern's turn comes; for each of these matches, either the whole text is
  rewritten with \<open>re.sub\<close>, or every occurrence of the matched string is replaced with
  \<open>str.replace\<close>.
\<close>

definition apply_match ::
  "bool \<Rightarrow> string \<Rightarrow> regex \<Rightarrow> replacement \<Rightarrow> string \<times> string list \<Rightarrow> rmatch
     \<Rightarrow> string \<times> string list" where
  "apply_match verbose pattern_name pattern replacement state m =
     (case replacement of
        Computed f \<Rightarrow> re_sub True pattern f (fst state)
      | Fixed r \<Rightarrow> str_replace (m_text m) r (fst state),
      if verbose then snd state @ [pattern_name] else snd state)"

definition apply_pattern ::
  "bool \<Rightarrow> string \<times> string list \<Rightarrow> string \<times> regex \<times> replacement \<Rightarrow> string \<times> string list" where
  "apply_pattern verbose state entry =
     (case entry of (pattern_name, pattern, replacement) \<Rightarrow>
        foldl (apply_match verbose pattern_name pattern replacement) state
          (finditer True pattern (fst state)))"

definition filter_text :: "string \<Rightarrow> bool \<Rightarrow> string \<times> string list" where
  "filter_text text verbose =
     (if text = [] then (text, []) else foldl (apply_pattern verbose) (text, []) PATTERNS)"

definition filter_message :: "string \<Rightarrow> string" where
  "filter_message message_content = fst (filter_text message_content False)"

definition has_sensitive_info :: "string \<Rightarrow> bool" where
  "has_sensitive_info text =
     (text \<noteq> [] \<and> list_ex (\<lambda>entry. re_search True (fst (snd entry)) text \<noteq> None) PATTERNS)"



text \<open>
  What a pattern writes in the place of a match, and the texts in which every match of
  every pattern is written back as it is: the matches that are left are redacted already.
\<close>

definition replacement_text :: "replacement \<Rightarrow> rmatch \<Rightarrow> string" where
  "replacement_text replacement m = (case replacement of Fixed r \<Rightarrow> r | Computed f \<Rightarrow> f m)"

definition already_redacted :: "string \<Rightarrow> bool" where
  "already_redacted t =
     list_all (\<lambda>entry. list_all (\<lambda>m. replacement_text (snd (snd entry)) m = m_text m)
                          (finditer True (fst (snd entry)) t))
       PATTERNS"


section \<open>Chunker\<close>

text \<open>\<open>app/services/chunking_service.py\<close>.\<close>

text \<open>\<open>s.split(sep)\<close> for a non-empty separator, and \<open>s.find(sub)\<close>.\<close>

fun split_on :: "string \<Rightarrow> nat \<Rightarrow> string \<Rightarrow> string \<Rightarrow> string list" where
  "split_on sep skip cur [] = [cur]"
| "split_on sep (Suc n) cur (c # cs) = split_on sep n cur cs"
| "split_on sep 0 cur (c # cs) =
     (if starts_with sep (c # cs) then cur # split_on sep (length sep - 1) [] cs
      else split_on sep 0 (cur @ [c]) cs)"

definition py_split_on :: "string \<Rightarrow> string \<Rightarrow> string list" where
  "py_split_on sep s = split_on sep 0 [] s"

fun find_from :: "string \<Rightarrow> int \<Rightarrow> string \<Rightarrow> int" where
  "find_from sub i [] = (if sub = [] then i else - 1)"
| "find_from sub i (c # cs) = (if starts_with sub (c # cs) then i else find_from sub (i + 1) cs)"

definition py_find :: "string \<Rightarrow> string \<Rightarrow> int" where
  "py_find s sub = find_from sub 0 s"

text \<open>
  The tokenizer is a parameter: \<open>None\<close> when \<open>tiktoken\<close> cannot be loaded, otherwise the
  length of the encoding, or \<open>None\<close> where encoding raises.
\<close>

type_synonym tokenizer = "(string \<Rightarrow> nat option) option"

definition CHARS_PER_TOKEN :: int where "CHARS_PER_TOKEN = 4"
definition DEFAULT_MIN_CHUNK_SIZE :: int where "DEFAULT_MIN_CHUNK_SIZE = 50"

definition count_tokens :: "tokenizer \<Rightarrow> string \<Rightarrow> int" where
  "count_tokens tok text =
     (case tok of
        None \<Rightarrow> int (length text) div CHARS_PER_TOKEN
      | Some encode \<Rightarrow>
          (case encode text of
             Some n \<Rightarrow> int n
           | None \<Rightarrow> int (length text) div CHARS_PER_TOKEN))"

definition make_chunk :: "string list \<Rightarrow> int \<Rightarrow> int \<Rightarrow> chunk" where
  "make_chunk parts current_tokens current_start =
     \<lparr>ck_content = py_join '' '' parts,
      ck_token_count = current_tokens,
      ck_start_char = current_start,
      ck_end_char = current_start + int (length (py_join '' '' parts)),
      ck_page_number = None,
      ck_chunk_index = None\<rparr>"

text \<open>
  The overlap kept from a buffer: its trailing items, taken from the last one backwards
  while their tokens fit into \<open>overlap\<close>. The first argument counts the tokens of an item.
\<close>

fun overlap_tail ::
  "(string \<Rightarrow> int) \<Rightarrow> int \<Rightarrow> string list \<Rightarrow> string list \<Rightarrow> int \<Rightarrow> string list \<times> int" where
  "overlap_tail cnt overlap [] kept kept_tokens = (kept, kept_tokens)"
| "overlap_tail cnt overlap (w # ws) kept kept_tokens =
     (if kept_tokens + cnt w \<le> overlap
      then overlap_tail cnt overlap ws (w # kept) (kept_tokens + cnt w)
      else (kept, kept_tokens))"

text \<open>The loop of \<open>_split_large_text\<close> over the words (lines 260-290) and its last chunk.\<close>

fun split_words ::
  "tokenizer \<Rightarrow> int \<Rightarrow> int \<Rightarrow> string list \<Rightarrow> string list \<Rightarrow> int \<Rightarrow> int \<Rightarrow> chunk list" where
  "split_words tok chunk_size overlap [] current_words current_tokens current_start =
     (if current_words \<noteq> [] then [make_chunk current_words current_tokens current_start] else [])"
| "split_words tok chunk_size overlap (word # ws) current_words current_tokens current_start =
     (let word_tokens = count_tokens tok (word @ '' '')
      in if current_tokens + word_tokens > chunk_size \<and> current_words \<noteq> []
         then (case overlap_tail (\<lambda>w. count_tokens tok (w @ '' '')) overlap (rev current_words) [] 0 of
                 (overlap_words, overlap_tokens) \<Rightarrow>
                   make_chunk current_words current_tokens current_start
                   # split_words tok chunk_size overlap ws (overlap_words @ [word])
                       (overlap_tokens + word_tokens)
                       (current_start + int (length (py_join '' '' current_words))
                          - int (length (py_join '' '' overlap_words))))
         else split_words tok chunk_size overlap ws (current_words @ [word])
                (current_tokens + word_tokens) current_start)"

definition split_large_text :: "string \<Rightarrow> int \<Rightarrow> int \<Rightarrow> tokenizer \<Rightarrow> int \<Rightarrow> chunk list" where
  "split_large_text text chunk_size overlap tok start_offset =
     split_words tok chunk_size overlap (py_split text) [] 0 start_offset"

text \<open>\<open>_split_into_sentences\<close>.\<close>

definition sentence_pattern :: regex where
  "sentence_pattern =
     Alt (seq [Behind [One (CHR ''.''), One (CHR ''!''), One (CHR ''?'')], plus space,
               Ahead (Set False [Range (CHR ''A'') (CHR ''Z'')])])
         (seq [Behind [One (CHR ''.''), One (CHR ''!''), One (CHR ''?'')], End_of_string])"

definition stripped_parts :: "string list \<Rightarrow> string list" where
  "stripped_parts parts = map py_strip (filter (\<lambda>p. py_strip p \<noteq> []) parts)"

definition split_into_sentences :: "string \<Rightarrow> string list" where
  "split_into_sentences text =
     (let sentences = stripped_parts (re_split False sentence_pattern text)
      in if length sentences \<le> 1 \<and> length text > 500
         then (let paragraphs = py_split_on [CHR 0x0A, CHR 0x0A] text
               in if length paragraphs > 1 then stripped_parts paragraphs
                  else (let lines = py_split_on [CHR 0x0A] text
                        in if length lines > 1 then stripped_parts lines else sentences))
         else sentences)"

text \<open>The loop of \<open>_chunk_text\<close> over the sentences (lines 145-201) and its last chunk.\<close>

fun pack_sentences ::
  "tokenizer \<Rightarrow> int \<Rightarrow> int \<Rightarrow> string \<Rightarrow> int \<Rightarrow> string list \<Rightarrow> string list \<Rightarrow> int \<Rightarrow> int
     \<Rightarrow> chunk list" where
  "pack_sentences tok chunk_size overlap text start_offset [] current_chunk current_tokens
       current_start =
     (if current_chunk \<noteq> [] \<and>
         count_tokens tok (py_join '' '' current_chunk) \<ge> DEFAULT_MIN_CHUNK_SIZE
      then [make_chunk current_chunk current_tokens current_start] else [])"
| "pack_sentences tok chunk_size overlap text start_offset (sentence # ss) current_chunk
       current_tokens current_start =
     (let sentence_tokens = count_tokens tok sentence
      in if sentence_tokens > chunk_size
         then (if current_chunk \<noteq> []
               then [make_chunk current_chunk current_tokens current_start] else [])
              @ split_large_text sentence chunk_size overlap tok start_offset
              @ pack_sentences tok chunk_size overlap text start_offset ss [] 0
                  (start_offset
                   + int (length (py_slice_to text
                                    (py_find text sentence + int (length sentence)))))
         else if current_tokens + sentence_tokens > chunk_size \<and> current_chunk \<noteq> []
         then (case overlap_tail (count_tokens tok) overlap (rev current_chunk) [] 0 of
                 (overlap_sentences, overlap_tokens) \<Rightarrow>
                   make_chunk current_chunk current_tokens current_start
                   # pack_sentences tok chunk_size overlap text start_offset ss
                       (overlap_sentences @ [sentence]) (overlap_tokens + sentence_tokens)
                       (start_offset + int (length (py_join '' '' current_chunk))
                          - int (length (py_join '' '' overlap_sentences))))
         else pack_sentences tok chunk_size overlap text start_offset ss
                (current_chunk @ [sentence]) (current_tokens + sentence_tokens) current_start)"

definition chunk_text :: "string \<Rightarrow> int \<Rightarrow> int \<Rightarrow> tokenizer \<Rightarrow> int \<Rightarrow> chunk list" where
  "chunk_text text0 chunk_size overlap tok start_offset =
     (let text = py_strip text0
      in if text = [] then []
         else pack_sentences tok chunk_size overlap text start_offset
                (split_into_sentences text) [] 0 start_offset)"

text \<open>\<open>_chunk_with_pages\<close> and \<open>chunk_document\<close>.\<close>

fun chunk_pages ::
  "string list \<Rightarrow> int \<Rightarrow> int \<Rightarrow> tokenizer \<Rightarrow> int \<Rightarrow> int \<Rightarrow> chunk list" where
  "chunk_pages [] chunk_size overlap tok page_num overall_char_offset = []"
| "chunk_pages (page_text # pages) chunk_size overlap tok page_num overall_char_offset =
     (if page_text = [] \<or> py_strip page_text = []
      then chunk_pages pages chunk_size overlap tok (page_num + 1)
             (overall_char_offset + int (length page_text) + 2)
      else map (\<lambda>c. c\<lparr>ck_page_number := Some page_num\<rparr>)
             (chunk_text page_text chunk_size overlap tok overall_char_offset)
           @ chunk_pages pages chunk_size overlap tok (page_num + 1)
               (overall_char_offset + int (length page_text) + 2))"

definition chunk_document ::
  "tokenizer \<Rightarrow> string \<Rightarrow> int \<Rightarrow> int \<Rightarrow> string list option \<Rightarrow> chunk list" where
  "chunk_document tok text chunk_size overlap pages =
     (if text = [] \<or> py_strip text = [] then []
      else case pages of
             Some ps \<Rightarrow>
               if ps \<noteq> [] then chunk_pages ps chunk_size overlap tok 1 0
               else chunk_text text chunk_size overlap tok 0
           | None \<Rightarrow> chunk_text text chunk_size overlap tok 0)"


text \<open>
  The pieces that the chunker packs, in the order of the text: the sentences of the
  stripped text, a sentence that counts more than \<open>chunk_size\<close> tokens being replaced by
  its words. A sentence counts the tokens of its text, a word those of its text followed
  by a space, as the two loops count them. With pages the pieces are those of the pages,
  one page after the other; the words of the document are then the words of its pages.
\<close>

datatype piece = Sentence string | Word string

fun piece_text :: "piece \<Rightarrow> string" where
  "piece_text (Sentence s) = s"
| "piece_text (Word w) = w"

fun piece_tokens :: "tokenizer \<Rightarrow> piece \<Rightarrow> int" where
  "piece_tokens tok (Sentence s) = count_tokens tok s"
| "piece_tokens tok (Word w) = count_tokens tok (w @ '' '')"

definition sentence_pieces :: "tokenizer \<Rightarrow> int \<Rightarrow> string \<Rightarrow> piece list" where
  "sentence_pieces tok chunk_size s =
     (if count_tokens tok s > chunk_size then map Word (py_split s) else [Sentence s])"

definition pieces_of :: "tokenizer \<Rightarrow> int \<Rightarrow> string \<Rightarrow> piece list" where
  "pieces_of tok chunk_size text0 =
     (let t = py_strip text0
      in if t = [] then []
         else concat (map (sentence_pieces tok chunk_size) (split_into_sentences t)))"

definition document_pieces ::
  "tokenizer \<Rightarrow> int \<Rightarrow> string \<Rightarrow> string list option \<Rightarrow> piece list" where
  "document_pieces tok chunk_size t pages =
     (case pages of
        Some ps \<Rightarrow> if ps \<noteq> [] then concat (map (pieces_of tok chunk_size) ps)
                   else pieces_of tok chunk_size t
      | None \<Rightarrow> pieces_of tok chunk_size t)"

definition document_words :: "string \<Rightarrow> string list option \<Rightarrow> string list" where
  "document_words t pages =
     (case pages of
        Some ps \<Rightarrow> if ps \<noteq> [] then concat (map py_split ps) else py_split t
      | None \<Rightarrow> py_split t)"

text \<open>
  A chunk and the run of pieces it is made of, given by the index of its first piece and
  the number of its pieces: the run is not empty and lies within the pieces; the content
  of the chunk is the pieces joined by spaces and its \<open>token_count\<close> the sum of their
  tokens; the count is at most \<open>chunk_size + overlap\<close> (a negative overlap counting as
  none) unless a piece of the run counts more than \<open>chunk_size\<close> tokens by itself, and it
  is positive unless every piece of the run counts no token.
\<close>

definition chunk_run ::
  "tokenizer \<Rightarrow> int \<Rightarrow> int \<Rightarrow> piece list \<Rightarrow> chunk \<Rightarrow> nat \<times> nat \<Rightarrow> bool" where
  "chunk_run tok chunk_size overlap P c r =
     (let ps = take (snd r) (drop (fst r) P)
      in 0 < snd r \<and> fst r + snd r \<le> length P \<and>
         ck_content c = py_join '' '' (map piece_text ps) \<and>
         ck_token_count c = sum_list (map (piece_tokens tok) ps) \<and>
         (ck_token_count c \<le> chunk_size + max 0 overlap \<or>
          list_ex (\<lambda>p. chunk_size < piece_tokens tok p) ps) \<and>
         (0 < ck_token_count c \<or> list_all (\<lambda>p. piece_tokens tok p = 0) ps))"

text \<open>
  Runs that advance through the pieces: from a run to any later one the start does not
  move back and the end moves on.
\<close>

definition advancing :: "(nat \<times> nat) list \<Rightarrow> bool" where
  "advancing runs =
     sorted_wrt (\<lambda>r r'. fst r \<le> fst r' \<and> fst r + snd r < fst r' + snd r') runs"

text \<open>Runs that start at \<open>lo\<close> or later, and end between \<open>mid\<close> and \<open>hi\<close>.\<close>

definition runs_within :: "nat \<Rightarrow> nat \<Rightarrow> nat \<Rightarrow> (nat \<times> nat) list \<Rightarrow> bool" where
  "runs_within lo mid hi runs =
     list_all (\<lambda>r. lo \<le> fst r \<and> 0 < snd r \<and> mid \<le> fst r + snd r \<and> fst r + snd r \<le> hi) runs"

text \<open>A text of four short sentences, the third of which is longer than five tokens.\<close>

definition demo_text :: string where
  "demo_text = ''Aaaaaaaaaaaaaaaa. Bbbbbbb. Cccc dddd eeee ffff gggg hhhh iiii. Dddddddd.''"

section \<open>Masked secrets: theorems\<close>

lemma demo_secret: "get_system_api_key Some demo_settings ''openai'' = ''abc''"
  by (simp add: get_system_api_key_def SUPPORTED_PROVIDERS_def get_setting_def demo_settings_def
      get_typed_value_def decrypt_def)

text \<open>A secret stored in a row of type \<open>json\<close>, as a JSON string, is read like the others.\<close>

lemma json_secret:
  "json_loads ([CHR 0x22] @ ''abc'' @ [CHR 0x22]) = PyStr ''abc'' \<and>
   get_system_api_key Some
     [''system_api_key_openai'' \<mapsto>
        \<lparr>setting_value = Some ([CHR 0x22] @ ''abc'' @ [CHR 0x22]), setting_type = ''json''\<rparr>]
     ''openai'' = ''abc''"
  by (simp add: get_system_api_key_def SUPPORTED_PROVIDERS_def get_setting_def
      get_typed_value_def decrypt_def json_loads_def json_space_def)

text \<open>
  C9, as stated, fails: a stored secret shorter than the requested prefix is masked to the
  empty string, not to its first characters followed by an ellipsis. Here the secret is
  \<open>abc\<close> and eight characters are requested.
\<close>

theorem C9_masked_secret_counterexample:
  "get_system_api_key Some demo_settings ''openai'' = ''abc'' \<and>
   get_masked_system_api_key Some demo_settings ''openai'' 8 = [] \<and>
   get_masked_system_api_key Some demo_settings ''openai'' 8 \<noteq> take 8 ''abc'' @ ''...''"
  by (simp add: demo_secret get_masked_system_api_key_def mask_api_key_def)

text \<open>
  C9, amended: for a prefix length \<open>n \<ge> 0\<close>, the masked secret of a provider whose stored
  secret is \<open>s\<close> is the first \<open>n\<close> characters of \<open>s\<close> followed by three dots when \<open>s\<close> is
  non-empty and has at least \<open>n\<close> characters; it is the empty string when no secret is
  stored or when the secret is shorter than \<open>n\<close>.
\<close>

theorem C9_masked_secret:
  assumes "get_system_api_key cipher st provider = s" and "0 \<le> n"
  shows "get_masked_system_api_key cipher st provider n =
           (if s = [] \<or> int (length s) < n then [] else take (nat n) s @ ''...'')"
  using assms by (simp add: get_masked_system_api_key_def mask_api_key_def py_slice_to_def)

theorem C9_masked_secret_witness:
  "get_system_api_key Some demo_settings ''openai'' = ''abc'' \<and> (0::int) \<le> 2 \<and>
   get_masked_system_api_key Some demo_settings ''openai'' 2 = ''ab...''"
  using C9_masked_secret [OF demo_secret, of 2] by (simp add: demo_secret)

section \<open>System messages: theorems\<close>

text \<open>
  C4: with both an age-based safety prompt and a retrieved document context, the claim
  asks for the order safety, context, history. The code prepends the context after the
  safety prompt, so the list handed to the provider starts with the context message and
  the safety message comes second.
\<close>

theorem C4_injection_order_at_input:
  "inject_system_messages demo_history (Some ''CTX'') (Some ''SAFE'') =
     [rag_system_message ''CTX'', age_system_message ''SAFE''] @ demo_history \<and>
   inject_system_messages demo_history (Some ''CTX'') (Some ''SAFE'') \<noteq>
     [age_system_message ''SAFE'', rag_system_message ''CTX''] @ demo_history"
  by (simp add: inject_system_messages_def truthy_def age_system_message_def
      rag_system_message_def rag_prompt_prefix_def)

section \<open>Vector store: theorems\<close>

text \<open>
  C8, as stated, fails: a query for a user without a collection returns no results, but it
  does report an error, the string \<open>User has no document collection\<close>.
\<close>

theorem C8_absent_tenant_counterexample:
  "qr_results (query quiet_chroma empty_store 7 [1, 0] 5 None) = [] \<and>
   qr_error (query quiet_chroma empty_store 7 [1, 0] 5 None) \<noteq> None"
  by (simp add: query_def get_user_collection_def empty_store_def)

text \<open>
  C8, amended: for every user that has no collection in the vector store, the query
  operation returns an empty result list together with the error string
  \<open>User has no document collection\<close>, and leaves the store as it was.
\<close>

theorem C8_absent_tenant:
  assumes "vs_collections vs user_id = None"
  shows "query env vs user_id query_embedding n_results document_ids =
           \<lparr>qr_results = [], qr_error = Some ''User has no document collection''\<rparr>"
  using assms by (simp add: query_def get_user_collection_def)

theorem C8_absent_tenant_witness:
  "vs_collections empty_store 7 = None \<and>
   query quiet_chroma empty_store 7 [1, 0] 5 None =
     \<lparr>qr_results = [], qr_error = Some ''User has no document collection''\<rparr>"
proof -
  have h: "vs_collections empty_store 7 = None" by (simp add: empty_store_def)
  show ?thesis using h C8_absent_tenant [OF h] by simp
qed

section \<open>Ingestion pipeline: theorems\<close>

lemmas pipeline_defs =
  process_document_def process_steps_def save_chunks_def fail_step_def commit_def add_chunks_def
  get_user_collection_def new_entries_def add_chunk_indices_def mark_processing_def
  mark_ready_def mark_failed_def failure_def db_chunk_of_def chunk_metadata_of_def
  vectors_of_def truthy_def py_strip_def py_isspace_def

lemmas pipeline_demos =
  failing_commit_env_def interrupted_commit_env_def demo_process_env_def demo_system_def
  demo_document_def demo_chunks_def quiet_chroma_def empty_store_def second_run_env_def

lemma upt_0_2: "[0..<2] = [0, Suc 0]"
  by (simp add: upt_rec)



lemma add_chunks_success:
  assumes "add_chunks cenv vs user_id chunks embeddings document_id = (vs1, r)" "sr_success r"
  shows "vs_collections vs1 user_id =
           Some ((case vs_collections vs user_id of None \<Rightarrow> [] | Some c \<Rightarrow> c)
                 @ new_entries cenv document_id chunks embeddings) \<and>
         sr_chroma_ids r = map (ce_uuid4 cenv) [0 ..< length chunks]"
  using assms
  by (auto simp: add_chunks_def get_user_collection_def split: if_splits option.splits prod.splits)

lemma new_entries_of_document:
  "filter (\<lambda>v. md_document_id (ve_metadata v) = document_id)
     (new_entries cenv document_id chunks embs) = new_entries cenv document_id chunks embs"
  by (simp add: new_entries_def chunk_metadata_of_def filter_map o_def)

lemma length_new_entries: "length (new_entries cenv document_id chunks embs) = length chunks"
  by (simp add: new_entries_def)


text \<open>
  The same run with a commit that raises and leaves the session as it was: the handler's
  commit then writes what the session holds, the two chunk rows and the document with the
  counts of \<open>mark_ready\<close> and the status \<open>failed\<close>. The vectors are in the collection here
  too.
\<close>

lemma interrupted_commit_at_input:
  "map_option doc_status
     (sys_documents (fst (process_document interrupted_commit_env demo_system 1)) 1)
     = Some ''failed'' \<and>
   map_option doc_chunk_count
     (sys_documents (fst (process_document interrupted_commit_env demo_system 1)) 1) = Some 2 \<and>
   length (sys_chunks (fst (process_document interrupted_commit_env demo_system 1))) = 2 \<and>
   map ve_id (vectors_of (sys_vs (fst (process_document interrupted_commit_env demo_system 1))) 7 1)
     = [''id-'', ''id-x''] \<and>
   snd (process_document interrupted_commit_env demo_system 1)
     = Returned (failure (Some ''database is locked''))"
  by (simp add: pipeline_defs pipeline_demos upt_0_2)



text \<open>
  The count invariant on a first processing: when a run of \<open>process_document\<close> succeeds on
  a document that had no chunk rows and no vectors, the document is ready and its
  \<open>chunk_count\<close> is the number of its chunk rows and the number of its vectors.
\<close>

lemma fail_step_not_success: "fail_step env s se i m e = (after, Inr r) \<Longrightarrow> \<not> pr_success r"
  by (auto simp: fail_step_def failure_def split: prod.splits option.splits)

lemma process_success_shape:
  assumes "process_steps env s se document_id = (after, Inr r)" "pr_success r"
  shows "\<exists>chunks embs vs1 sr m.
           add_chunks (pe_chroma env) (sys_vs s) (doc_user_id (se_document se)) chunks embs
             document_id = (vs1, sr) \<and>
           sr_success sr \<and>
           save_chunks env (s\<lparr>sys_vs := vs1\<rparr>) se document_id chunks (sr_chroma_ids sr) m
             = (after, Inr r)"
  using assms
  apply (simp add: process_steps_def Let_def split: sum.splits if_splits prod.splits)
  apply (auto dest: fail_step_not_success)
   apply blast+
  done

lemma first_processing_counts:
  assumes run: "process_document env s document_id = (s', Returned r)" and ok: "pr_success r"
    and doc: "sys_documents s document_id = Some document"
    and fresh_rows: "filter (\<lambda>c. dc_document_id c = document_id) (sys_chunks s) = []"
    and fresh_vecs: "vectors_of (sys_vs s) (doc_user_id document) document_id = []"
  shows "\<exists>d'. sys_documents s' document_id = Some d' \<and> doc_status d' = ''ready'' \<and>
           doc_chunk_count d' =
             int (length (filter (\<lambda>c. dc_document_id c = document_id) (sys_chunks s'))) \<and>
           doc_chunk_count d' =
             int (length (vectors_of (sys_vs s') (doc_user_id document) document_id))"
proof -
  define d where "d = mark_processing document"
  define s1 where "s1 = s\<lparr>sys_documents := (sys_documents s)(document_id \<mapsto> d)\<rparr>"
  define se1 where "se1 = \<lparr>se_document = d, se_new = [], se_failed_flush = None\<rparr>"
  have user: "doc_user_id d = doc_user_id document" by (simp add: d_def mark_processing_def)
  from run doc ok obtain se' where steps: "process_steps env s1 se1 document_id = ((s', se'), Inr r)"
    by (auto simp: process_document_def commit_def Let_def d_def s1_def se1_def failure_def
        split: option.splits prod.splits sum.splits commit_outcome.splits)
  from process_success_shape [OF steps ok] obtain chunks embs vs1 sr m where
    add: "add_chunks (pe_chroma env) (sys_vs s1) (doc_user_id d) chunks embs document_id = (vs1, sr)"
    and sr: "sr_success sr"
    and save: "save_chunks env (s1\<lparr>sys_vs := vs1\<rparr>) se1 document_id chunks (sr_chroma_ids sr) m
                 = ((s', se'), Inr r)"
    by (auto simp: se1_def)
  from add_chunks_success [OF add sr] have
    coll: "vs_collections vs1 (doc_user_id d) =
             Some ((case vs_collections (sys_vs s1) (doc_user_id d) of None \<Rightarrow> [] | Some c \<Rightarrow> c)
                   @ new_entries (pe_chroma env) document_id chunks embs)"
    by simp
  have old: "filter (\<lambda>v. md_document_id (ve_metadata v) = document_id)
               (case vs_collections (sys_vs s1) (doc_user_id d) of None \<Rightarrow> [] | Some c \<Rightarrow> c) = []"
    using fresh_vecs by (simp add: vectors_of_def s1_def user split: option.splits)
  have vecs: "vectors_of vs1 (doc_user_id document) document_id =
                new_entries (pe_chroma env) document_id chunks embs"
    using coll old by (simp add: vectors_of_def user new_entries_of_document)
  from save have s': "s' = (s1\<lparr>sys_vs := vs1\<rparr>)\<lparr>sys_chunks := sys_chunks s1 @
          map (\<lambda>i. db_chunk_of document_id (chunks ! i) (sr_chroma_ids sr ! i)) [0 ..< length chunks],
        sys_documents := (sys_documents s1)(document_id \<mapsto>
          mark_ready d (int (length chunks)) (sum_list (map ck_token_count chunks)) m (pe_now env))\<rparr>"
    by (auto simp: save_chunks_def commit_def se1_def Let_def
        split: if_splits option.splits prod.splits commit_outcome.splits)
  have rows: "filter (\<lambda>c. dc_document_id c = document_id) (sys_chunks s') =
      map (\<lambda>i. db_chunk_of document_id (chunks ! i) (sr_chroma_ids sr ! i)) [0 ..< length chunks]"
    using fresh_rows by (simp add: s' s1_def db_chunk_of_def filter_map o_def)
  show ?thesis
    by (simp add: rows) (simp add: s' vecs length_new_entries mark_ready_def)
qed

text \<open>
  C5: the claim holds on a first processing, and fails when a ready document is processed
  again, as the reprocess route does: the second run adds two more rows and two more
  vectors next to the two of the first run, and records \<open>chunk_count = 2\<close> on a document
  that now has four chunk rows and four vectors.
\<close>

theorem C5_reprocess_at_input:
  "map_option doc_status (sys_documents (fst (process_document second_run_env
       (fst (process_document demo_process_env demo_system 1)) 1)) 1) = Some ''ready'' \<and>
   map_option doc_chunk_count (sys_documents (fst (process_document second_run_env
       (fst (process_document demo_process_env demo_system 1)) 1)) 1) = Some 2 \<and>
   length (filter (\<lambda>c. dc_document_id c = 1) (sys_chunks (fst (process_document second_run_env
       (fst (process_document demo_process_env demo_system 1)) 1)))) = 4 \<and>
   length (vectors_of (sys_vs (fst (process_document second_run_env
       (fst (process_document demo_process_env demo_system 1)) 1))) 7 1) = 4"
  by (simp add: pipeline_defs pipeline_demos upt_0_2)

section \<open>Upload: theorems\<close>

lemma project_id_rejected:
  "Document_init upload_kwargs d =
     Inl ([CHR 0x27] @ ''project_id'' @ [CHR 0x27] @ '' is an invalid keyword argument for Document'')"
  by (simp add: Document_init_def upload_kwargs_def document_attributes_def)

text \<open>
  C10: for every upload of a file with a name and a supported extension, the document
  table is left as it was and the operation returns \<open>success = False\<close> with
  \<open>document_id = None\<close>; whenever the upload check passes and the file is saved, the error
  returned is the one the constructor of \<open>Document\<close> raises for the keyword \<open>project_id\<close>.
\<close>

theorem C10_upload_never_creates_document:
  assumes "file = Some f" and "truthy (uf_filename f)"
    and "is_supported (py_strip_chars ''.''
           (py_lower (ue_suffix env (ue_secure_filename env (the (uf_filename f))))))"
  shows "fst (save_uploaded_document env docs user_id file project_id) = docs \<and>
         ur_success (snd (save_uploaded_document env docs user_id file project_id)) = False \<and>
         ur_document_id (snd (save_uploaded_document env docs user_id file project_id)) = None \<and>
         (fst (can_upload_document env docs user_id) \<and> ue_save_error env = None \<longrightarrow>
            ur_error (snd (save_uploaded_document env docs user_id file project_id)) =
              Some ([CHR 0x27] @ ''project_id'' @ [CHR 0x27]
                    @ '' is an invalid keyword argument for Document''))"
  using assms
  by (auto simp: save_uploaded_document_def project_id_rejected upload_failure_def Let_def
      split: prod.splits bool.splits option.splits)

theorem C10_upload_never_creates_document_witness:
  "truthy (Some ''notes.txt'') \<and>
   is_supported ''txt'' \<and>
   fst (can_upload_document demo_upload_env [] 7) \<and> ue_save_error demo_upload_env = None \<and>
   save_uploaded_document demo_upload_env [] 7 (Some \<lparr>uf_filename = Some ''notes.txt''\<rparr>) (Some 3) =
     ([], \<lparr>ur_success = False, ur_document_id = None,
           ur_error = Some ([CHR 0x27] @ ''project_id'' @ [CHR 0x27]
                            @ '' is an invalid keyword argument for Document'')\<rparr>)"
proof -
  let ?f = "\<lparr>uf_filename = Some ''notes.txt''\<rparr>"
  have a: "Some ?f = Some ?f" by simp
  have b: "truthy (uf_filename ?f)" by (simp add: truthy_def)
  have sup: "is_supported ''txt''"
    by (simp add: is_supported_def py_strip_chars_def py_lower_def py_lower_char_def
        SUPPORTED_TYPES_def)
  have c: "is_supported (py_strip_chars ''.''
             (py_lower (ue_suffix demo_upload_env
                (ue_secure_filename demo_upload_env (the (uf_filename ?f))))))"
    by (simp add: is_supported_def py_strip_chars_def py_lower_def py_lower_char_def
        SUPPORTED_TYPES_def demo_upload_env_def)
  have can: "fst (can_upload_document demo_upload_env [] 7)"
    by (simp add: can_upload_document_def demo_upload_env_def get_user_document_count_def)
  have sv: "ue_save_error demo_upload_env = None" by (simp add: demo_upload_env_def)
  from C10_upload_never_creates_document [OF a b c, of "[]" 7 "Some 3"] can sv
  have "save_uploaded_document demo_upload_env [] 7 (Some ?f) (Some 3) =
     ([], \<lparr>ur_success = False, ur_document_id = None,
           ur_error = Some ([CHR 0x27] @ ''project_id'' @ [CHR 0x27]
                            @ '' is an invalid keyword argument for Document'')\<rparr>)"
    by (cases "save_uploaded_document demo_upload_env [] 7 (Some ?f) (Some 3)")
       (cases "snd (save_uploaded_document demo_upload_env [] 7 (Some ?f) (Some 3))", simp)
  with b sup can sv show ?thesis by simp
qed

section \<open>Chat turn: theorems\<close>

text \<open>
  C2: the claim asks that a request naming a chat of another user be rejected with nothing
  stored. The handler looks the chat up by its session handle and never compares its owner
  with the requesting user, unlike the history, delete, rename and export routes, which
  answer 403. Here user 2 names the chat of user 1: the request goes on to stream, and the
  message of user 2 is stored in that chat.
\<close>

theorem C2_foreign_chat_at_input:
  "chat_user_id alice_chat \<noteq> cv_current_user_id mallory_env \<and>
   chat mallory_env alice_db mallory_request =
     (alice_db\<lparr>cd_messages :=
          [\<lparr>mr_id = 1, mr_chat_id = 1, mr_role = ''user'', mr_content = ''hello'',
            mr_model_used = ''gemini'', mr_input_tokens = 1, mr_tokens_used = 1,
            mr_tokens_estimated = True\<rparr>]\<rparr>,
      Streaming alice_chat
        \<lparr>mr_id = 1, mr_chat_id = 1, mr_role = ''user'', mr_content = ''hello'',
         mr_model_used = ''gemini'', mr_input_tokens = 1, mr_tokens_used = 1,
         mr_tokens_estimated = True\<rparr>)"
  by (simp add: chat_def mallory_env_def alice_db_def mallory_request_def alice_chat_def
      py_strip_def py_isspace_def truthy_def next_id_def Let_def)

section \<open>Provider adapter: theorems\<close>

lemma fst_yield [simp]: "fst (yield e r) = e # fst r"
  by (simp add: yield_def)

lemma gemini_chunks_content: "filter is_terminal (fst (gemini_chunks cs f l)) = []"
  by (induction cs f l rule: gemini_chunks.induct) simp_all

lemma openai_lines_content: "filter is_terminal (fst (openai_lines ls f u)) = []"
  by (induction ls f u rule: openai_lines.induct) simp_all

lemma compatible_lines_content: "filter is_terminal (fst (compatible_lines ls f u)) = []"
  by (induction ls f u rule: compatible_lines.induct) simp_all

lemma anthropic_lines_content: "filter is_terminal (fst (anthropic_lines ls f u)) = []"
  by (induction ls f u rule: anthropic_lines.induct) simp_all

lemma ollama_lines_content: "filter is_terminal (fst (ollama_lines ls f u)) = []"
  by (induction ls f u rule: ollama_lines.induct) simp_all

lemma handle_finish_shape:
  assumes "filter is_terminal (fst loop) = []"
  shows "generator_shape (handle (finish (request x loop) fu) h)"
  using assms
  by (cases loop)
     (auto simp: generator_shape_def handle_def finish_def request_def one_terminal_last_def
           split: option.splits sum.splits prod.splits)

lemma single_error_shape: "generator_shape ([Error m], None)"
  by (simp add: generator_shape_def one_terminal_last_def)

lemma raised_shape: "generator_shape ([], Some e)"
  by (simp add: generator_shape_def)

lemma gemini_shape: "generator_shape (get_gemini_response_stream x ms)"
proof -
  have "filter is_terminal (fst (gemini_chunks (x_gemini_chunks x) [] None)) = []"
    by (rule gemini_chunks_content)
  then show ?thesis
    by (cases "gemini_chunks (x_gemini_chunks x) [] None")
       (auto simp: get_gemini_response_stream_def generator_shape_def handle_def
          one_terminal_last_def split: option.splits sum.splits prod.splits)
qed

lemma openai_shape: "generator_shape (get_openai_response_stream x ms m)"
  by (simp add: get_openai_response_stream_def Let_def single_error_shape raised_shape
      handle_finish_shape openai_lines_content split: option.splits)

lemma anthropic_shape: "generator_shape (get_anthropic_response_stream x ms m)"
  by (simp add: get_anthropic_response_stream_def single_error_shape raised_shape
      handle_finish_shape anthropic_lines_content split: option.splits)

lemma grok_shape: "generator_shape (get_grok_response_stream x ms m)"
  by (simp add: get_grok_response_stream_def single_error_shape raised_shape
      handle_finish_shape compatible_lines_content split: option.splits)

lemma lmstudio_shape: "generator_shape (get_lmstudio_response_stream x ms m v)"
  by (simp add: get_lmstudio_response_stream_def single_error_shape raised_shape
      handle_finish_shape compatible_lines_content split: option.splits)

lemma ollama_shape: "generator_shape (get_ollama_response_stream x ms m v)"
  by (simp add: get_ollama_response_stream_def single_error_shape raised_shape
      handle_finish_shape ollama_lines_content split: option.splits)

lemma close_shape:
  "generator_shape g \<Longrightarrow>
   one_terminal_last (case g of (es, None) \<Rightarrow> es | (es, Some e) \<Rightarrow> es @ [Error (exc_text e)])"
  by (cases g) (auto simp: generator_shape_def one_terminal_last_def split: option.splits)

text \<open>
  C3: for every call of the stream operation, whatever the provider name, the stored keys
  and what the upstream sends or raises, the sequence of yielded events is a list that is
  not empty, ends in a terminal event (\<open>done\<close> or \<open>error\<close>) and holds exactly one
  terminal event: nothing follows it.
\<close>

theorem C3_one_terminal_event:
  "get_response_stream x messages provider model_name rag_context age_system_prompt vision \<noteq> [] \<and>
   is_terminal (last (get_response_stream x messages provider model_name rag_context
                        age_system_prompt vision)) \<and>
   length (filter is_terminal (get_response_stream x messages provider model_name rag_context
                                 age_system_prompt vision)) = 1"
proof -
  have "one_terminal_last (get_response_stream x messages provider model_name rag_context
                             age_system_prompt vision)"
    unfolding get_response_stream_def Let_def
    by (intro close_shape)
       (simp add: gemini_shape openai_shape anthropic_shape grok_shape lmstudio_shape
          ollama_shape single_error_shape)
  then show ?thesis by (simp add: one_terminal_last_def)
qed

lemma demo_key: "get_user_api_key demo_exchange ''openai'' = Some ''abc''"
  by (simp add: get_user_api_key_def demo_exchange_def demo_secret)

lemma demo_provider: "normalize_provider ''OpenAI'' = ''openai''"
  by code_simp

lemma demo_stream:
  "get_response_stream demo_exchange demo_history ''OpenAI'' None None None False =
     [Content ''Hel'', Content ''lo'',
      Done ''Hello'' (Some \<lparr>us_input_tokens = 3, us_output_tokens = 2, us_total_tokens = 5,
                            us_estimated = False\<rparr>)]"
  by (simp add: get_response_stream_def demo_provider inject_system_messages_def truthy_def
        get_openai_response_stream_def demo_key Let_def)
     (simp add: demo_exchange_def yield_def next_usage_def reported_usage_def handle_def
        finish_def request_def validate_usage_def)

theorem C3_one_terminal_event_witness:
  "get_response_stream demo_exchange demo_history ''OpenAI'' None None None False =
     [Content ''Hel'', Content ''lo'',
      Done ''Hello'' (Some \<lparr>us_input_tokens = 3, us_output_tokens = 2, us_total_tokens = 5,
                            us_estimated = False\<rparr>)] \<and>
   is_terminal (last (get_response_stream demo_exchange demo_history ''OpenAI'' None None None
                        False)) \<and>
   length (filter is_terminal (get_response_stream demo_exchange demo_history ''OpenAI'' None
                                 None None False)) = 1"
  using C3_one_terminal_event [of demo_exchange demo_history "''OpenAI''" None None None False]
    demo_stream
  by simp

section \<open>Strings and regular expressions: lemmas\<close>

text \<open>
  A match is a prefix of the text it was found in, and the matches of a scan, each after
  the text skipped before it, followed by the text after the last match, make up the text
  again.
\<close>

lemma pick_in:
  assumes "pick must_advance t candidates = Some m"
  shows "\<exists>s\<in>set candidates. m = match_of t s"
proof (cases must_advance)
  case False
  with assms show ?thesis by (auto simp: pick_def split: list.splits)
next
  case True
  with assms obtain s ss where
    f: "filter (\<lambda>s. length (fst (snd s)) < length t) candidates = s # ss" and m: "m = match_of t s"
    by (auto simp: pick_def split: list.splits)
  have "s \<in> set (filter (\<lambda>s. length (fst (snd s)) < length t) candidates)"
    unfolding f by simp
  with m show ?thesis by auto
qed

lemma pick_prefix:
  assumes "pick must_advance t candidates = Some m"
  shows "\<exists>k. m_text m = take k t \<and> (must_advance \<longrightarrow> 0 < k \<and> t \<noteq> [])"
proof (cases must_advance)
  case False
  with assms obtain s where "m = match_of t s"
    by (auto simp: pick_def split: list.splits)
  with False show ?thesis by (auto simp: match_of_def)
next
  case True
  with assms obtain s ss where
    f: "filter (\<lambda>s. length (fst (snd s)) < length t) candidates = s # ss" and m: "m = match_of t s"
    by (auto simp: pick_def split: list.splits)
  have "s \<in> set (filter (\<lambda>s. length (fst (snd s)) < length t) candidates)"
    unfolding f by simp
  then have "length (fst (snd s)) < length t" by simp
  with m True show ?thesis
    by (intro exI [of _ "length t - length (fst (snd s))"]) (auto simp: match_of_def)
qed

lemma take_drop_pred:
  assumes "t = take k (c # cs)" "t \<noteq> []"
  shows "t @ drop (length t - 1) cs = c # cs"
proof -
  obtain n where n: "length t = Suc n" using assms(2) by (cases t) auto
  have "t = take (length t) (c # cs)" using assms(1) by (simp add: min_def)
  then have "t = take (Suc n) (c # cs)" using n by simp
  moreover have "drop (length t - 1) cs = drop (Suc n) (c # cs)" using n by simp
  ultimately show ?thesis by (metis append_take_drop_id)
qed

lemma scan_rebuild:
  "skip \<le> length t \<Longrightarrow> scan ci r skip prev acc t = (found, rest) \<Longrightarrow>
   concat (map (\<lambda>(skipped, m). skipped @ m_text m) found) @ rest = acc @ drop skip t"
proof (induction ci r skip prev acc t arbitrary: found rest rule: scan.induct)
  case (1 ci r skip prev acc)
  then show ?case
    by (auto split: option.splits dest!: pick_prefix)
next
  case (2 ci r n prev acc c cs)
  then show ?case by simp
next
  case (3 ci r prev acc c cs)
  show ?case
  proof (cases "pick False (c # cs) (states ci r (prev, c # cs, []))")
    case None
    with 3 show ?thesis by simp
  next
    case (Some m)
    from pick_prefix [OF Some] obtain k where mk: "m_text m = take k (c # cs)" by auto
    show ?thesis
    proof (cases "m_text m = []")
      case False
      obtain f1 r1 where s1: "scan ci r (length (m_text m) - 1) (Some c) [] cs = (f1, r1)"
        by (cases "scan ci r (length (m_text m) - 1) (Some c) [] cs") auto
      have le: "length (m_text m) - 1 \<le> length cs" using mk by simp
      from "3.IH"(2) [OF Some False le s1]
      have "concat (map (\<lambda>(skipped, m). skipped @ m_text m) f1) @ r1 = drop (length (m_text m) - 1) cs"
        by simp
      moreover from "3.prems"(2) Some False s1 have "found = (acc, m) # f1" "rest = r1" by auto
      ultimately show ?thesis using take_drop_pred [OF mk False] by simp
    next
      case True
      show ?thesis
      proof (cases "pick True (c # cs) (states ci r (prev, c # cs, []))")
        case None
        obtain f1 r1 where s1: "scan ci r 0 (Some c) [c] cs = (f1, r1)"
          by (cases "scan ci r 0 (Some c) [c] cs") auto
        from "3.IH"(3) [OF Some _ None _ s1] True
        have "concat (map (\<lambda>(skipped, m). skipped @ m_text m) f1) @ r1 = [c] @ cs" by simp
        moreover from "3.prems"(2) Some True None s1 have "found = (acc, m) # f1" "rest = r1"
          by auto
        ultimately show ?thesis using True by simp
      next
        case m2: (Some m2)
        from pick_prefix [OF m2] obtain k2 where mk2: "m_text m2 = take k2 (c # cs)" "0 < k2"
          by auto
        then have ne: "m_text m2 \<noteq> []" by (cases k2) auto
        obtain f1 r1 where s1: "scan ci r (length (m_text m2) - 1) (Some c) [] cs = (f1, r1)"
          by (cases "scan ci r (length (m_text m2) - 1) (Some c) [] cs") auto
        have le: "length (m_text m2) - 1 \<le> length cs" using mk2 by simp
        from "3.IH"(4) [OF Some _ m2 le s1] True
        have "concat (map (\<lambda>(skipped, m). skipped @ m_text m) f1) @ r1
                = drop (length (m_text m2) - 1) cs" by simp
        moreover from "3.prems"(2) Some True m2 s1
        have "found = (acc, m) # ([], m2) # f1" "rest = r1" by auto
        ultimately show ?thesis using True take_drop_pred [OF mk2(1) ne] by simp
      qed
    qed
  qed
qed

lemma starts_with_prefix: "starts_with p s \<Longrightarrow> s = p @ drop (length p) s"
  by (induction p s rule: starts_with.induct) auto

text \<open>The words of a text, \<open>s.split()\<close>, across a cut at whitespace.\<close>

lemma split_ws_append:
  "b = [] \<or> py_isspace (hd b) \<or> (a \<noteq> [] \<and> py_isspace (last a)) \<or> (a = [] \<and> cur = []) \<Longrightarrow>
   split_ws cur (a @ b) = split_ws cur a @ split_ws [] b"
proof (induction a arbitrary: cur)
  case Nil
  then show ?case by (cases b) auto
next
  case (Cons c a)
  show ?case
  proof (cases "py_isspace c")
    case True
    have "split_ws [] (a @ b) = split_ws [] a @ split_ws [] b"
      by (rule Cons.IH) (use Cons.prems in \<open>auto split: if_splits\<close>)
    with True show ?thesis by simp
  next
    case False
    have "split_ws (cur @ [c]) (a @ b) = split_ws (cur @ [c]) a @ split_ws [] b"
      by (rule Cons.IH) (use Cons.prems False in \<open>auto split: if_splits\<close>)
    with False show ?thesis by simp
  qed
qed

lemma split_ws_blank: "list_all py_isspace ws \<Longrightarrow> split_ws [] ws = []"
  by (induction ws) auto

lemma words_append_space:
  assumes "list_all py_isspace ws" "ws \<noteq> []"
  shows "py_split (a @ ws @ b) = py_split a @ py_split b"
proof -
  have "py_isspace (hd ws)" using assms by (cases ws) auto
  then have 1: "split_ws [] (a @ ws @ b) = split_ws [] a @ split_ws [] (ws @ b)"
    using assms(2) by (intro split_ws_append) simp
  have "py_isspace (last ws)" using assms by (induction ws) auto
  then have 2: "split_ws [] (ws @ b) = split_ws [] ws @ split_ws [] b"
    using assms(2) by (intro split_ws_append) simp
  show ?thesis by (simp add: py_split_def 1 2 split_ws_blank [OF assms(1)])
qed

lemma words_append_at_space:
  "b = [] \<or> py_isspace (hd b) \<Longrightarrow> py_split (a @ b) = py_split a @ py_split b"
  unfolding py_split_def by (rule split_ws_append) auto

lemma words_dropWhile: "split_ws [] (dropWhile py_isspace s) = split_ws [] s"
  by (induction s) auto

lemma words_strip: "py_split (py_strip s) = py_split s"
proof -
  let ?d = "dropWhile py_isspace s"
  have parts: "?d = rev (dropWhile py_isspace (rev ?d)) @ rev (takeWhile py_isspace (rev ?d))"
    by (metis rev_append rev_rev_ident takeWhile_dropWhile_id)
  have blank: "list_all py_isspace (rev (takeWhile py_isspace (rev ?d)))"
    by (simp add: list_all_iff) (meson set_takeWhileD)
  have "py_split ?d = py_split (rev (dropWhile py_isspace (rev ?d)))
                        @ py_split (rev (takeWhile py_isspace (rev ?d)))"
  proof (cases "rev (takeWhile py_isspace (rev ?d)) = []")
    case True
    with parts show ?thesis by (simp add: py_split_def)
  next
    case False
    then have "py_isspace (hd (rev (takeWhile py_isspace (rev ?d))))"
      using blank by (cases "rev (takeWhile py_isspace (rev ?d))") auto
    from words_append_at_space [of "rev (takeWhile py_isspace (rev ?d))"
        "rev (dropWhile py_isspace (rev ?d))"] this parts
    show ?thesis by simp
  qed
  then have "py_split ?d = py_split (py_strip s)"
    using split_ws_blank [OF blank] by (simp add: py_split_def py_strip_def)
  then show ?thesis by (simp add: py_split_def words_dropWhile)
qed

lemma words_blank: "py_strip s = [] \<Longrightarrow> py_split s = []"
  using words_strip [of s] by (simp add: py_split_def)

lemma split_ws_words:
  "w \<in> set (split_ws cur s) \<Longrightarrow> list_all (\<lambda>c. \<not> py_isspace c) cur \<Longrightarrow>
   w \<noteq> [] \<and> list_all (\<lambda>c. \<not> py_isspace c) w"
  by (induction cur s rule: split_ws.induct) (auto split: if_splits)

lemma split_ws_word:
  "list_all (\<lambda>c. \<not> py_isspace c) w \<Longrightarrow> cur @ w \<noteq> [] \<Longrightarrow> split_ws cur w = [cur @ w]"
  by (induction w arbitrary: cur) auto

lemma words_of_words: "concat (map py_split (py_split s)) = py_split s"
proof -
  have "\<And>w. w \<in> set (py_split s) \<Longrightarrow> py_split w = [w]"
    using split_ws_words [of _ "[]" s] split_ws_word [of _ "[]"] by (auto simp: py_split_def)
  then have "map py_split (py_split s) = map (\<lambda>w. [w]) (py_split s)" by simp
  then show ?thesis by (simp only: concat_map_singleton list.map_ident)
qed

section \<open>Sensitive-information filter: theorems\<close>

text \<open>
  When a pattern writes every match back as it is, \<open>re.sub\<close> and \<open>str.replace\<close> return
  their text, and so do the pass of the pattern over its matches and the whole filter.
\<close>

lemma re_sub_same:
  assumes "list_all (\<lambda>m. f m = m_text m) (finditer ci r t)"
  shows "re_sub ci r f t = t"
proof -
  obtain found rest where s: "scan ci r 0 None [] t = (found, rest)"
    by (cases "scan ci r 0 None [] t") auto
  from assms s have same: "map (\<lambda>(skipped, m). skipped @ f m) found
                       = map (\<lambda>(skipped, m). skipped @ m_text m) found"
    by (auto simp: finditer_def list_all_iff)
  have "concat (map (\<lambda>(skipped, m). skipped @ m_text m) found) @ rest = t"
    using scan_rebuild [OF _ s] by simp
  then show ?thesis by (simp add: re_sub_def s same)
qed

lemma replace_from_same:
  "new = old \<Longrightarrow> old \<noteq> [] \<Longrightarrow> skip \<le> length s \<Longrightarrow> replace_from old new skip s = drop skip s"
proof (induction old new skip s rule: replace_from.induct)
  case (1 old new skip)
  then show ?case by simp
next
  case (2 old new n c cs)
  then show ?case by simp
next
  case (3 old new c cs)
  show ?case
  proof (cases "starts_with old (c # cs)")
    case False
    with 3 show ?thesis by simp
  next
    case True
    from starts_with_prefix [OF True] have eq: "c # cs = old @ drop (length old) (c # cs)" .
    obtain x xs where old: "old = x # xs" using "3.prems"(2) by (cases old) auto
    have "length old \<le> length (c # cs)"
      using eq by (metis length_append le_add1)
    then have le: "length old - 1 \<le> length cs" by simp
    have "drop (length old - 1) cs = drop (length old) (c # cs)"
      using old by simp
    with 3 True le eq show ?thesis by simp
  qed
qed

lemma str_replace_same: "str_replace x x s = s"
  by (cases "x = []") (simp_all add: str_replace_def replace_from_same)

lemma apply_match_same:
  assumes "replacement_text replacement m = m_text m"
    and "list_all (\<lambda>m. replacement_text replacement m = m_text m) (finditer True pattern (fst state))"
  shows "fst (apply_match verbose pattern_name pattern replacement state m) = fst state"
  using assms
  by (cases replacement)
     (simp_all add: apply_match_def replacement_text_def str_replace_same re_sub_same)

lemma fold_matches_same:
  assumes "list_all (\<lambda>m. replacement_text replacement m = m_text m) ms"
    and "list_all (\<lambda>m. replacement_text replacement m = m_text m) (finditer True pattern (fst state))"
  shows "fst (foldl (apply_match verbose pattern_name pattern replacement) state ms) = fst state"
  using assms
proof (induction ms arbitrary: state)
  case Nil
  then show ?case by simp
next
  case (Cons m ms)
  have one: "fst (apply_match verbose pattern_name pattern replacement state m) = fst state"
    using Cons.prems by (intro apply_match_same) simp_all
  have "fst (foldl (apply_match verbose pattern_name pattern replacement)
               (apply_match verbose pattern_name pattern replacement state m) ms)
          = fst (apply_match verbose pattern_name pattern replacement state m)"
    using Cons.prems by (intro Cons.IH) (simp_all add: one)
  with one show ?case by simp
qed

lemma apply_pattern_same:
  assumes "list_all (\<lambda>m. replacement_text (snd (snd entry)) m = m_text m)
             (finditer True (fst (snd entry)) (fst state))"
  shows "fst (apply_pattern verbose state entry) = fst state"
  using assms
  by (cases entry) (simp add: apply_pattern_def fold_matches_same)

lemma fold_patterns_same:
  assumes "list_all (\<lambda>entry. list_all (\<lambda>m. replacement_text (snd (snd entry)) m = m_text m)
                                (finditer True (fst (snd entry)) (fst state))) ps"
  shows "fst (foldl (apply_pattern verbose) state ps) = fst state"
  using assms
proof (induction ps arbitrary: state)
  case Nil
  then show ?case by simp
next
  case (Cons p ps)
  have one: "fst (apply_pattern verbose state p) = fst state"
    using Cons.prems by (intro apply_pattern_same) simp
  have "fst (foldl (apply_pattern verbose) (apply_pattern verbose state p) ps)
          = fst (apply_pattern verbose state p)"
    using Cons.prems by (intro Cons.IH) (simp add: one)
  with one show ?case by simp
qed

text \<open>A text in which every match is redacted already is returned as it is.\<close>

lemma filter_message_redacted: "already_redacted t \<Longrightarrow> filter_message t = t"
  using fold_patterns_same [of "(t, [])" PATTERNS False]
  by (simp add: filter_message_def filter_text_def already_redacted_def)

lemma first_pass:
  "filter_message ''123456789 987654321123456789'' = ''[SSN_REDACTED] 987654321[SSN_REDACTED]''"
  by code_simp

lemma second_pass:
  "filter_message ''[SSN_REDACTED] 987654321[SSN_REDACTED]'' =
     ''[SSN_REDACTED] [SSN_REDACTED][SSN_REDACTED]''"
  by code_simp

text \<open>
  C6, as stated, fails. In \<open>123456789 987654321123456789\<close> the pattern for social
  security numbers matches the first nine digits only, the eighteen digits that follow not
  being nine digits between word boundaries. The matched string is then replaced wherever
  it occurs, also at the end of the eighteen digits, which leaves \<open>987654321\<close> between a
  space and a bracket: a second run of the filter matches and redacts it.
\<close>

theorem C6_idempotence_counterexample:
  "filter_message ''123456789 987654321123456789'' = ''[SSN_REDACTED] 987654321[SSN_REDACTED]'' \<and>
   filter_message (filter_message ''123456789 987654321123456789'') =
     ''[SSN_REDACTED] [SSN_REDACTED][SSN_REDACTED]'' \<and>
   filter_message (filter_message ''123456789 987654321123456789'') \<noteq>
     filter_message ''123456789 987654321123456789''"
  by (simp add: first_pass second_pass)

text \<open>
  A second way in which a pass leaves a match for the next one: the patterns are applied
  in the order of the dictionary, and what a later pattern writes can be matched by an
  earlier one. In \<open>pwd=12345 6789\<close> the five characters after \<open>pwd=\<close> are too few for the
  password pattern; the pattern for social security numbers then writes its mark, which
  the password pattern takes for a password in the second pass.
\<close>

lemma later_pattern_at_input:
  "filter_message ''pwd=12345 6789'' = ''pwd=[SSN_REDACTED]'' \<and>
   filter_message ''pwd=[SSN_REDACTED]'' = ''pwd=[PASSWORD_REDACTED]''"
  by code_simp

text \<open>
  In both outputs of a first pass a pattern has a match that it would rewrite; in the
  output of the second pass of the second text the password pattern still matches, and
  writes back what it matched.
\<close>

lemma live_matches_at_input:
  "\<not> already_redacted ''[SSN_REDACTED] 987654321[SSN_REDACTED]'' \<and>
   \<not> already_redacted ''pwd=[SSN_REDACTED]'' \<and>
   already_redacted ''pwd=[PASSWORD_REDACTED]'' \<and>
   has_sensitive_info ''pwd=[PASSWORD_REDACTED]''"
  by code_simp

text \<open>
  C6, amended: for every string \<open>text\<close> such that every match that a pattern of the
  redactor has in \<open>filter(text)\<close> is one that the pattern's replacement writes back
  unchanged (the match is redacted already), \<open>filter(filter(text)) = filter(text)\<close>:
  applying the filter to such an output returns that output unchanged.
\<close>

theorem C6_idempotent_on_redacted_output:
  assumes "already_redacted (filter_message t)"
  shows "filter_message (filter_message t) = filter_message t"
  using assms by (rule filter_message_redacted)

lemma redacted_once:
  "filter_message ''pwd=abcdef1 and SSN 123-45-6789'' =
     ''pwd=[PASSWORD_REDACTED] and SSN [SSN_REDACTED]''"
  by code_simp

lemma redacted_stays:
  "already_redacted ''pwd=[PASSWORD_REDACTED] and SSN [SSN_REDACTED]'' \<and>
   has_sensitive_info ''pwd=[PASSWORD_REDACTED] and SSN [SSN_REDACTED]''"
  by code_simp

theorem C6_idempotent_on_redacted_output_witness:
  "already_redacted (filter_message ''pwd=abcdef1 and SSN 123-45-6789'') \<and>
   has_sensitive_info (filter_message ''pwd=abcdef1 and SSN 123-45-6789'') \<and>
   filter_message (filter_message ''pwd=abcdef1 and SSN 123-45-6789'') =
     ''pwd=[PASSWORD_REDACTED] and SSN [SSN_REDACTED]''"
proof -
  have h: "already_redacted (filter_message ''pwd=abcdef1 and SSN 123-45-6789'')"
    by (simp add: redacted_once redacted_stays)
  show ?thesis
    using h C6_idempotent_on_redacted_output [OF h] by (simp add: redacted_once redacted_stays)
qed

section \<open>Chunker: theorems\<close>

text \<open>Token counts are not negative, and a sum of them is positive or all of them are zero.\<close>

lemma count_tokens_nonneg: "0 \<le> count_tokens tok t"
  by (simp add: count_tokens_def CHARS_PER_TOKEN_def pos_imp_zdiv_nonneg_iff split: option.splits)

lemma piece_tokens_nonneg: "0 \<le> piece_tokens tok p"
  by (cases p) (simp_all add: count_tokens_nonneg)

lemma sum_zero_or_positive:
  "(\<And>x. 0 \<le> f x) \<Longrightarrow> 0 < sum_list (map f xs) \<or> list_all (\<lambda>x. f x = (0::int)) xs"
proof (induction xs)
  case Nil
  then show ?case by simp
next
  case (Cons x xs)
  have "0 \<le> sum_list (map f xs)" by (rule sum_list_nonneg) (use Cons.prems in auto)
  moreover have "0 \<le> f x" by (rule Cons.prems)
  ultimately show ?case using Cons.IH [OF Cons.prems] by (cases "f x = 0") auto
qed

text \<open>Runs within bounds, and when a list of runs advances.\<close>

lemma runs_within_Nil [simp]: "runs_within lo mid hi []"
  by (simp add: runs_within_def)

lemma runs_within_Cons:
  "runs_within lo mid hi ((a, n) # runs) =
     (lo \<le> a \<and> 0 < n \<and> mid \<le> a + n \<and> a + n \<le> hi \<and> runs_within lo mid hi runs)"
  by (simp add: runs_within_def)

lemma runs_within_append:
  "runs_within lo mid hi r1 \<Longrightarrow> runs_within lo mid hi r2 \<Longrightarrow> runs_within lo mid hi (r1 @ r2)"
  by (auto simp: runs_within_def list_all_iff)

lemma runs_within_weaken:
  "runs_within lo mid hi runs \<Longrightarrow> lo' \<le> lo \<Longrightarrow> mid' \<le> mid \<Longrightarrow> hi \<le> hi' \<Longrightarrow> runs_within lo' mid' hi' runs"
  by (fastforce simp: runs_within_def list_all_iff)

lemma runs_within_strict: "runs_within lo mid hi runs \<Longrightarrow> runs_within lo (Suc lo) hi runs"
  by (fastforce simp: runs_within_def list_all_iff)

lemma advancing_Nil [simp]: "advancing []"
  by (simp add: advancing_def)

lemma advancing_Cons:
  "runs_within lo mid hi runs \<Longrightarrow> advancing runs \<Longrightarrow> a \<le> lo \<Longrightarrow> a + n < mid \<Longrightarrow>
   advancing ((a, n) # runs)"
  by (auto simp: advancing_def runs_within_def list_all_iff)

lemma advancing_append:
  "advancing r1 \<Longrightarrow> advancing r2 \<Longrightarrow> runs_within lo1 mid1 m r1 \<Longrightarrow> runs_within m mid2 hi2 r2 \<Longrightarrow>
   advancing (r1 @ r2)"
  by (fastforce simp: advancing_def runs_within_def list_all_iff sorted_wrt_append)

text \<open>What is kept of a buffer: a suffix of it, with its tokens, at most \<open>overlap\<close>.\<close>

lemma overlap_tail_suffix:
  assumes "overlap_tail cnt overlap ws kept k = (ks, kt)"
  shows "\<exists>taken rest. ws = taken @ rest \<and> ks = rev taken @ kept \<and>
                      kt = k + sum_list (map cnt taken)"
  using assms
proof (induction ws arbitrary: kept k)
  case Nil
  then show ?case by simp
next
  case (Cons w ws)
  show ?case
  proof (cases "k + cnt w \<le> overlap")
    case True
    with Cons.prems have "overlap_tail cnt overlap ws (w # kept) (k + cnt w) = (ks, kt)" by simp
    from Cons.IH [OF this] obtain taken rest where
      "ws = taken @ rest" "ks = rev taken @ w # kept" "kt = k + cnt w + sum_list (map cnt taken)"
      by auto
    then show ?thesis
      by (intro exI [of _ "w # taken"] exI [of _ rest]) simp
  next
    case False
    with Cons.prems have "ks = kept" "kt = k" by auto
    then show ?thesis by (intro exI [of _ "[]"] exI [of _ "w # ws"]) simp
  qed
qed

lemma overlap_tail_bounds:
  assumes "\<And>w. 0 \<le> cnt w" and "0 \<le> k" and "k \<le> max 0 overlap"
    and "overlap_tail cnt overlap ws kept k = (ks, kt)"
  shows "0 \<le> kt \<and> kt \<le> max 0 overlap"
  using assms(2-)
proof (induction ws arbitrary: kept k)
  case Nil
  then show ?case by simp
next
  case (Cons w ws)
  show ?case
  proof (cases "k + cnt w \<le> overlap")
    case True
    have "0 \<le> k + cnt w" using Cons.prems(1) assms(1) [of w] by simp
    moreover have "k + cnt w \<le> max 0 overlap" using True by simp
    ultimately show ?thesis using Cons.IH [of "k + cnt w" "w # kept"] Cons.prems(3) True by simp
  next
    case False
    with Cons.prems show ?thesis by simp
  qed
qed

lemma overlap_of_buffer:
  assumes "\<And>w. 0 \<le> cnt w"
    and "overlap_tail cnt overlap (rev buf) [] 0 = (ks, kt)"
  shows "\<exists>dropped. buf = dropped @ ks \<and> kt = sum_list (map cnt ks) \<and> kt \<le> max 0 overlap"
proof -
  from overlap_tail_suffix [OF assms(2)] obtain taken rest where
    t: "rev buf = taken @ rest" "ks = rev taken" "kt = sum_list (map cnt taken)"
    by auto
  from t(1) have "buf = rev rest @ rev taken" by (metis rev_append rev_rev_ident)
  moreover have "sum_list (map cnt (rev taken)) = sum_list (map cnt taken)"
    by (simp add: rev_map [symmetric])
  moreover have "kt \<le> max 0 overlap"
    using overlap_tail_bounds [OF assms(1) _ _ assms(2)] by simp
  ultimately show ?thesis using t by (intro exI [of _ "rev rest"]) simp
qed

text \<open>A buffer that is flushed is a chunk made of the run of its pieces.\<close>

lemma make_chunk_simps [simp]:
  "ck_token_count (make_chunk parts t s) = t"
  "ck_content (make_chunk parts t s) = py_join '' '' parts"
  by (simp_all add: make_chunk_def)

lemma chunk_run_words:
  assumes "P = pre @ map Word buf @ post" "buf \<noteq> []"
    and "t = sum_list (map (\<lambda>w. count_tokens tok (w @ '' '')) buf)"
    and "t \<le> chunk_size + max 0 overlap \<or>
         (\<exists>w\<in>set buf. chunk_size < count_tokens tok (w @ '' ''))"
  shows "chunk_run tok chunk_size overlap P (make_chunk buf t s) (length pre, length buf)"
proof -
  have ps: "take (length buf) (drop (length pre) P) = map Word buf"
    using assms(1) by simp
  have tk: "map (piece_tokens tok) (map Word buf) = map (\<lambda>w. count_tokens tok (w @ '' '')) buf"
    by simp
  have tx: "map piece_text (map Word buf) = buf" by (simp add: map_idI)
  have low: "0 < t \<or> list_all (\<lambda>p. piece_tokens tok p = 0) (map Word buf)"
    using sum_zero_or_positive [of "piece_tokens tok" "map Word buf"] assms(3)
    by (simp add: piece_tokens_nonneg o_def)
  show ?thesis
    unfolding chunk_run_def Let_def ps tx
    using assms(1,2,4) low
    by (simp add: assms(3) o_def list_ex_iff)
qed

lemma chunk_run_sentences:
  assumes "P = pre @ map Sentence buf @ post" "buf \<noteq> []"
    and "t = sum_list (map (count_tokens tok) buf)"
    and "t \<le> chunk_size + max 0 overlap"
  shows "chunk_run tok chunk_size overlap P (make_chunk buf t s) (length pre, length buf)"
proof -
  have ps: "take (length buf) (drop (length pre) P) = map Sentence buf"
    using assms(1) by simp
  have tx: "map piece_text (map Sentence buf) = buf" by (simp add: map_idI)
  have low: "0 < t \<or> list_all (\<lambda>p. piece_tokens tok p = 0) (map Sentence buf)"
    using sum_zero_or_positive [of "piece_tokens tok" "map Sentence buf"] assms(3)
    by (simp add: piece_tokens_nonneg o_def)
  show ?thesis
    unfolding chunk_run_def Let_def ps tx
    using assms(1,2,4) low
    by (simp add: assms(3) o_def)
qed

lemma chunk_run_page [simp]:
  "chunk_run tok chunk_size overlap P (c\<lparr>ck_page_number := n\<rparr>) r
     = chunk_run tok chunk_size overlap P c r"
  by (simp add: chunk_run_def)

text \<open>
  The two loops. The pieces are \<open>pre\<close>, the buffer, what is still to come and \<open>post\<close>; the
  tokens of the buffer are the sum of the tokens of its pieces and, unless it holds a word
  above \<open>chunk_size\<close>, at most \<open>chunk_size + overlap\<close>. The chunks of the loop are then
  made of runs that advance, none starting before the buffer nor ending before its end.
\<close>

lemma split_words_runs:
  "P = pre @ map Word buf @ map Word ws @ post \<Longrightarrow>
         current_tokens = sum_list (map (\<lambda>w. count_tokens tok (w @ '' '')) buf) \<Longrightarrow>
         (buf \<noteq> [] \<Longrightarrow> current_tokens \<le> chunk_size + max 0 overlap \<or>
                       (\<exists>w\<in>set buf. chunk_size < count_tokens tok (w @ '' ''))) \<Longrightarrow>
         \<exists>runs. list_all2 (chunk_run tok chunk_size overlap P)
                   (split_words tok chunk_size overlap ws buf current_tokens current_start) runs \<and>
                advancing runs \<and>
                runs_within (length pre) (length pre + length buf)
                  (length pre + length buf + length ws) runs"
proof (induction ws arbitrary: pre buf current_tokens current_start)
  case Nil
  show ?case
  proof (cases "buf = []")
    case True
    then show ?thesis by simp
  next
    case False
    have "chunk_run tok chunk_size overlap P (make_chunk buf current_tokens current_start)
            (length pre, length buf)"
      using Nil False by (intro chunk_run_words [where post = post]) auto
    with False show ?thesis
      by (intro exI [of _ "[(length pre, length buf)]"])
         (simp add: advancing_def runs_within_Cons)
  qed
next
  case (Cons word ws)
  let ?cnt = "\<lambda>w. count_tokens tok (w @ '' '')"
  let ?wt = "?cnt word"
  show ?case
  proof (cases "current_tokens + ?wt > chunk_size \<and> buf \<noteq> []")
    case True
    obtain ks kt where o: "overlap_tail ?cnt overlap (rev buf) [] 0 = (ks, kt)"
      by (cases "overlap_tail ?cnt overlap (rev buf) [] 0") auto
    from overlap_of_buffer [OF _ o] obtain dropped where
      d: "buf = dropped @ ks" "kt = sum_list (map ?cnt ks)" "kt \<le> max 0 overlap"
      by (auto simp: count_tokens_nonneg)
    have first: "chunk_run tok chunk_size overlap P (make_chunk buf current_tokens current_start)
                   (length pre, length buf)"
      using Cons.prems True
      by (intro chunk_run_words [where post = "map Word (word # ws) @ post"]) auto
    have "\<exists>runs. list_all2 (chunk_run tok chunk_size overlap P)
             (split_words tok chunk_size overlap ws (ks @ [word]) (kt + ?wt)
                (current_start + int (length (py_join '' '' buf))
                   - int (length (py_join '' '' ks)))) runs \<and>
           advancing runs \<and>
           runs_within (length (pre @ map Word dropped))
             (length (pre @ map Word dropped) + length (ks @ [word]))
             (length (pre @ map Word dropped) + length (ks @ [word]) + length ws) runs"
    proof (rule Cons.IH)
      show "P = (pre @ map Word dropped) @ map Word (ks @ [word]) @ map Word ws @ post"
        using Cons.prems(1) d(1) by simp
      show "kt + ?wt = sum_list (map ?cnt (ks @ [word]))" using d(2) by simp
      show "kt + ?wt \<le> chunk_size + max 0 overlap \<or>
            (\<exists>w\<in>set (ks @ [word]). chunk_size < ?cnt w)"
        using d(3) by (cases "?wt \<le> chunk_size") auto
    qed
    then obtain runs where
      r: "list_all2 (chunk_run tok chunk_size overlap P)
            (split_words tok chunk_size overlap ws (ks @ [word]) (kt + ?wt)
               (current_start + int (length (py_join '' '' buf))
                  - int (length (py_join '' '' ks)))) runs"
      and a: "advancing runs"
      and w: "runs_within (length pre + length dropped)
                (length pre + length dropped + length ks + 1)
                (length pre + length dropped + length ks + 1 + length ws) runs"
      by (auto simp: add.assoc)
    have len: "length buf = length dropped + length ks" using d(1) by simp
    have adv: "advancing ((length pre, length buf) # runs)"
      by (rule advancing_Cons [OF w a]) (simp_all add: len)
    have win: "runs_within (length pre) (length pre + length buf)
                 (length pre + length buf + length (word # ws)) ((length pre, length buf) # runs)"
      using True d(1) runs_within_weaken [OF w, of "length pre" "length pre + length buf"
          "length pre + length buf + length (word # ws)"]
      by (auto simp: runs_within_Cons len)
    show ?thesis
      using True o first r adv win
      by (intro exI [of _ "(length pre, length buf) # runs"]) (simp add: Let_def)
  next
    case False
    have "\<exists>runs. list_all2 (chunk_run tok chunk_size overlap P)
             (split_words tok chunk_size overlap ws (buf @ [word]) (current_tokens + ?wt)
                current_start) runs \<and>
           advancing runs \<and>
           runs_within (length pre) (length pre + length (buf @ [word]))
             (length pre + length (buf @ [word]) + length ws) runs"
    proof (rule Cons.IH)
      show "P = pre @ map Word (buf @ [word]) @ map Word ws @ post"
        using Cons.prems(1) by simp
      show "current_tokens + ?wt = sum_list (map ?cnt (buf @ [word]))"
        using Cons.prems(2) by simp
      show "current_tokens + ?wt \<le> chunk_size + max 0 overlap \<or>
            (\<exists>w\<in>set (buf @ [word]). chunk_size < ?cnt w)"
      proof (cases "buf = []")
        case True
        with Cons.prems(2) show ?thesis by (cases "?wt \<le> chunk_size") auto
      next
        case nonempty: False
        with False have "current_tokens + ?wt \<le> chunk_size" by simp
        then show ?thesis by (auto simp: max_def)
      qed
    qed
    then obtain runs where
      r: "list_all2 (chunk_run tok chunk_size overlap P)
            (split_words tok chunk_size overlap ws (buf @ [word]) (current_tokens + ?wt)
               current_start) runs"
      and a: "advancing runs"
      and w: "runs_within (length pre) (length pre + length buf + 1)
                (length pre + length buf + 1 + length ws) runs"
      by (auto simp: add.assoc)
    have win: "runs_within (length pre) (length pre + length buf)
                 (length pre + length buf + length (word # ws)) runs"
      by (rule runs_within_weaken [OF w]) simp_all
    show ?thesis
      using False r a win by (intro exI [of _ runs]) (auto simp: Let_def)
  qed
qed

lemma pack_sentences_runs:
  "P = pre @ map Sentence buf @ concat (map (sentence_pieces tok chunk_size) ss) @ post \<Longrightarrow>
         current_tokens = sum_list (map (count_tokens tok) buf) \<Longrightarrow>
         (buf \<noteq> [] \<Longrightarrow> current_tokens \<le> chunk_size + max 0 overlap) \<Longrightarrow>
         \<exists>runs. list_all2 (chunk_run tok chunk_size overlap P)
                   (pack_sentences tok chunk_size overlap t start_offset ss buf current_tokens
                      current_start) runs \<and>
                advancing runs \<and>
                runs_within (length pre) (length pre + length buf)
                  (length pre + length buf
                     + length (concat (map (sentence_pieces tok chunk_size) ss))) runs"
proof (induction ss arbitrary: pre buf current_tokens current_start)
  case Nil
  show ?case
  proof (cases "buf \<noteq> [] \<and>
                count_tokens tok (py_join '' '' buf) \<ge> DEFAULT_MIN_CHUNK_SIZE")
    case False
    then show ?thesis by auto
  next
    case True
    have "chunk_run tok chunk_size overlap P (make_chunk buf current_tokens current_start)
            (length pre, length buf)"
      using Nil True by (intro chunk_run_sentences [where post = post]) auto
    with True show ?thesis
      by (intro exI [of _ "[(length pre, length buf)]"])
         (simp add: advancing_def runs_within_Cons)
  qed
next
  case (Cons sentence ss)
  let ?st = "count_tokens tok sentence"
  let ?rest = "concat (map (sentence_pieces tok chunk_size) ss)"
  show ?case
  proof (cases "?st > chunk_size")
    case True
    let ?words = "py_split sentence"
    have sp: "sentence_pieces tok chunk_size sentence = map Word ?words"
      using True by (simp add: sentence_pieces_def)
    define fl where "fl = (if buf \<noteq> [] then [(length pre, length buf)] else [])"
    have flush: "list_all2 (chunk_run tok chunk_size overlap P)
                   (if buf \<noteq> [] then [make_chunk buf current_tokens current_start] else []) fl"
    proof (cases "buf = []")
      case True
      then show ?thesis by (simp add: fl_def)
    next
      case False
      have "chunk_run tok chunk_size overlap P (make_chunk buf current_tokens current_start)
              (length pre, length buf)"
        using Cons.prems False
        by (intro chunk_run_sentences
              [where post = "concat (map (sentence_pieces tok chunk_size) (sentence # ss)) @ post"])
           auto
      with False show ?thesis by (simp add: fl_def)
    qed
    have "\<exists>runs. list_all2 (chunk_run tok chunk_size overlap P)
             (split_words tok chunk_size overlap ?words [] 0 start_offset) runs \<and>
           advancing runs \<and>
           runs_within (length (pre @ map Sentence buf)) (length (pre @ map Sentence buf) + length ([]::string list))
             (length (pre @ map Sentence buf) + length ([]::string list) + length ?words) runs"
      by (rule split_words_runs [where post = "?rest @ post"])
         (use Cons.prems(1) sp in auto)
    then obtain wr where
      wr: "list_all2 (chunk_run tok chunk_size overlap P)
             (split_large_text sentence chunk_size overlap tok start_offset) wr"
      and wa: "advancing wr"
      and ww: "runs_within (length pre + length buf) (length pre + length buf)
                 (length pre + length buf + length ?words) wr"
      by (auto simp: split_large_text_def)
    have "\<exists>runs. list_all2 (chunk_run tok chunk_size overlap P)
             (pack_sentences tok chunk_size overlap t start_offset ss [] 0
                (start_offset + int (length (py_slice_to t
                   (py_find t sentence + int (length sentence)))))) runs \<and>
           advancing runs \<and>
           runs_within (length (pre @ map Sentence buf @ map Word ?words))
             (length (pre @ map Sentence buf @ map Word ?words) + length ([]::string list))
             (length (pre @ map Sentence buf @ map Word ?words) + length ([]::string list)
                + length ?rest) runs"
      by (rule Cons.IH) (use Cons.prems(1) sp in auto)
    then obtain rr where
      rr: "list_all2 (chunk_run tok chunk_size overlap P)
             (pack_sentences tok chunk_size overlap t start_offset ss [] 0
                (start_offset + int (length (py_slice_to t
                   (py_find t sentence + int (length sentence)))))) rr"
      and ra: "advancing rr"
      and rw: "runs_within (length pre + length buf + length ?words)
                 (length pre + length buf + length ?words)
                 (length pre + length buf + length ?words + length ?rest) rr"
      by (auto simp: add.assoc)
    have tail_adv: "advancing (wr @ rr)"
      by (rule advancing_append [OF wa ra ww rw])
    have tail_win: "runs_within (length pre + length buf) (Suc (length pre + length buf))
                      (length pre + length buf + length ?words + length ?rest) (wr @ rr)"
    proof (rule runs_within_strict)
      have "runs_within (length pre + length buf) (length pre + length buf)
              (length pre + length buf + length ?words + length ?rest) wr"
        by (rule runs_within_weaken [OF ww]) simp_all
      moreover have "runs_within (length pre + length buf) (length pre + length buf)
              (length pre + length buf + length ?words + length ?rest) rr"
        by (rule runs_within_weaken [OF rw]) simp_all
      ultimately show "runs_within (length pre + length buf) (length pre + length buf)
              (length pre + length buf + length ?words + length ?rest) (wr @ rr)"
        by (rule runs_within_append)
    qed
    have adv: "advancing (fl @ wr @ rr)"
      using tail_adv advancing_Cons [OF tail_win tail_adv, of "length pre" "length buf"]
      by (simp add: fl_def)
    have win: "runs_within (length pre) (length pre + length buf)
                 (length pre + length buf
                    + length (concat (map (sentence_pieces tok chunk_size) (sentence # ss))))
                 (fl @ wr @ rr)"
      using runs_within_weaken [OF tail_win, of "length pre" "length pre + length buf"
          "length pre + length buf + length ?words + length ?rest"]
      by (auto simp: fl_def runs_within_Cons sp add.assoc)
    have all: "list_all2 (chunk_run tok chunk_size overlap P)
                 ((if buf \<noteq> [] then [make_chunk buf current_tokens current_start] else [])
                  @ split_large_text sentence chunk_size overlap tok start_offset
                  @ pack_sentences tok chunk_size overlap t start_offset ss [] 0
                      (start_offset + int (length (py_slice_to t
                         (py_find t sentence + int (length sentence))))))
                 (fl @ wr @ rr)"
      by (intro list_all2_appendI flush wr rr)
    show ?thesis
      using True all adv win by (intro exI [of _ "fl @ wr @ rr"]) (simp add: Let_def)
  next
    case small: False
    have sp: "sentence_pieces tok chunk_size sentence = [Sentence sentence]"
      using small by (simp add: sentence_pieces_def)
    show ?thesis
    proof (cases "current_tokens + ?st > chunk_size \<and> buf \<noteq> []")
      case True
      obtain ks kt where o: "overlap_tail (count_tokens tok) overlap (rev buf) [] 0 = (ks, kt)"
        by (cases "overlap_tail (count_tokens tok) overlap (rev buf) [] 0") auto
      from overlap_of_buffer [OF _ o] obtain dropped where
        d: "buf = dropped @ ks" "kt = sum_list (map (count_tokens tok) ks)" "kt \<le> max 0 overlap"
        by (auto simp: count_tokens_nonneg)
      have first: "chunk_run tok chunk_size overlap P
                     (make_chunk buf current_tokens current_start) (length pre, length buf)"
        using Cons.prems True
        by (intro chunk_run_sentences
              [where post = "concat (map (sentence_pieces tok chunk_size) (sentence # ss)) @ post"])
           auto
      have "\<exists>runs. list_all2 (chunk_run tok chunk_size overlap P)
               (pack_sentences tok chunk_size overlap t start_offset ss (ks @ [sentence])
                  (kt + ?st)
                  (start_offset + int (length (py_join '' '' buf))
                     - int (length (py_join '' '' ks)))) runs \<and>
             advancing runs \<and>
             runs_within (length (pre @ map Sentence dropped))
               (length (pre @ map Sentence dropped) + length (ks @ [sentence]))
               (length (pre @ map Sentence dropped) + length (ks @ [sentence]) + length ?rest) runs"
      proof (rule Cons.IH)
        show "P = (pre @ map Sentence dropped) @ map Sentence (ks @ [sentence]) @ ?rest @ post"
          using Cons.prems(1) d(1) sp by simp
        show "kt + ?st = sum_list (map (count_tokens tok) (ks @ [sentence]))" using d(2) by simp
        show "kt + ?st \<le> chunk_size + max 0 overlap" using d(3) small by simp
      qed
      then obtain runs where
        r: "list_all2 (chunk_run tok chunk_size overlap P)
              (pack_sentences tok chunk_size overlap t start_offset ss (ks @ [sentence])
                 (kt + ?st)
                 (start_offset + int (length (py_join '' '' buf))
                    - int (length (py_join '' '' ks)))) runs"
        and a: "advancing runs"
        and w: "runs_within (length pre + length dropped)
                  (length pre + length dropped + length ks + 1)
                  (length pre + length dropped + length ks + 1 + length ?rest) runs"
        by (auto simp: add.assoc)
      have len: "length buf = length dropped + length ks" using d(1) by simp
      have adv: "advancing ((length pre, length buf) # runs)"
        by (rule advancing_Cons [OF w a]) (simp_all add: len)
      have win: "runs_within (length pre) (length pre + length buf)
                   (length pre + length buf
                      + length (concat (map (sentence_pieces tok chunk_size) (sentence # ss))))
                   ((length pre, length buf) # runs)"
        using True d(1) runs_within_weaken [OF w, of "length pre" "length pre + length buf"
            "length pre + length buf + 1 + length ?rest"]
        by (auto simp: runs_within_Cons len sp)
      show ?thesis
        using True small o first r adv win
        by (intro exI [of _ "(length pre, length buf) # runs"]) (simp add: Let_def)
    next
      case False
      have "\<exists>runs. list_all2 (chunk_run tok chunk_size overlap P)
               (pack_sentences tok chunk_size overlap t start_offset ss (buf @ [sentence])
                  (current_tokens + ?st) current_start) runs \<and>
             advancing runs \<and>
             runs_within (length pre) (length pre + length (buf @ [sentence]))
               (length pre + length (buf @ [sentence]) + length ?rest) runs"
      proof (rule Cons.IH)
        show "P = pre @ map Sentence (buf @ [sentence]) @ ?rest @ post"
          using Cons.prems(1) sp by simp
        show "current_tokens + ?st = sum_list (map (count_tokens tok) (buf @ [sentence]))"
          using Cons.prems(2) by simp
        show "current_tokens + ?st \<le> chunk_size + max 0 overlap"
        proof (cases "buf = []")
          case True
          with Cons.prems(2) small show ?thesis by simp
        next
          case nonempty: False
          with False have "current_tokens + ?st \<le> chunk_size" by simp
          then show ?thesis by (auto simp: max_def)
        qed
      qed
      then obtain runs where
        r: "list_all2 (chunk_run tok chunk_size overlap P)
              (pack_sentences tok chunk_size overlap t start_offset ss (buf @ [sentence])
                 (current_tokens + ?st) current_start) runs"
        and a: "advancing runs"
        and w: "runs_within (length pre) (length pre + length buf + 1)
                  (length pre + length buf + 1 + length ?rest) runs"
        by (auto simp: add.assoc)
      have win: "runs_within (length pre) (length pre + length buf)
                   (length pre + length buf
                      + length (concat (map (sentence_pieces tok chunk_size) (sentence # ss))))
                   runs"
        by (rule runs_within_weaken [OF w]) (simp_all add: sp)
      show ?thesis
        using False small r a win by (intro exI [of _ runs]) (auto simp: Let_def)
    qed
  qed
qed

lemma chunk_text_runs:
  assumes P: "P = pre @ pieces_of tok chunk_size t @ post"
  shows "\<exists>runs. list_all2 (chunk_run tok chunk_size overlap P)
                   (chunk_text t chunk_size overlap tok start_offset) runs \<and>
                advancing runs \<and>
                runs_within (length pre) (length pre)
                  (length pre + length (pieces_of tok chunk_size t)) runs"
proof (cases "py_strip t = []")
  case True
  then show ?thesis by (simp add: chunk_text_def)
next
  case False
  have "\<exists>runs. list_all2 (chunk_run tok chunk_size overlap P)
           (pack_sentences tok chunk_size overlap (py_strip t) start_offset
              (split_into_sentences (py_strip t)) [] 0 start_offset) runs \<and>
         advancing runs \<and>
         runs_within (length pre) (length pre + length ([]::string list))
           (length pre + length ([]::string list)
              + length (concat (map (sentence_pieces tok chunk_size)
                                  (split_into_sentences (py_strip t))))) runs"
    by (rule pack_sentences_runs [where post = post])
       (use P False in \<open>auto simp: pieces_of_def\<close>)
  with False show ?thesis by (simp add: chunk_text_def pieces_of_def Let_def)
qed

lemma pieces_of_blank: "py_strip t = [] \<Longrightarrow> pieces_of tok chunk_size t = []"
  by (simp add: pieces_of_def)

lemma chunk_pages_runs:
  "P = pre @ concat (map (pieces_of tok chunk_size) ps) @ post \<Longrightarrow>
         \<exists>runs. list_all2 (chunk_run tok chunk_size overlap P)
                   (chunk_pages ps chunk_size overlap tok n off) runs \<and>
                advancing runs \<and>
                runs_within (length pre) (length pre)
                  (length pre + length (concat (map (pieces_of tok chunk_size) ps))) runs"
proof (induction ps arbitrary: pre n off)
  case Nil
  then show ?case by simp
next
  case (Cons p ps)
  let ?here = "pieces_of tok chunk_size p"
  let ?rest = "concat (map (pieces_of tok chunk_size) ps)"
  have "\<exists>runs. list_all2 (chunk_run tok chunk_size overlap P)
           (chunk_pages ps chunk_size overlap tok (n + 1) (off + int (length p) + 2)) runs \<and>
         advancing runs \<and>
         runs_within (length (pre @ ?here)) (length (pre @ ?here))
           (length (pre @ ?here) + length ?rest) runs"
    by (rule Cons.IH) (use Cons.prems in simp)
  then obtain rr where
    rr: "list_all2 (chunk_run tok chunk_size overlap P)
           (chunk_pages ps chunk_size overlap tok (n + 1) (off + int (length p) + 2)) rr"
    and ra: "advancing rr"
    and rw: "runs_within (length pre + length ?here) (length pre + length ?here)
               (length pre + length ?here + length ?rest) rr"
    by auto
  show ?case
  proof (cases "p = [] \<or> py_strip p = []")
    case True
    then have "py_strip p = []" by (auto simp: py_strip_def)
    then have "?here = []" by (rule pieces_of_blank)
    with True rr ra rw show ?thesis by (intro exI [of _ rr]) auto
  next
    case False
    from chunk_text_runs [of P pre tok chunk_size p "?rest @ post" overlap off] Cons.prems
    obtain pr where
      pr: "list_all2 (chunk_run tok chunk_size overlap P) (chunk_text p chunk_size overlap tok off) pr"
      and pa: "advancing pr"
      and pw: "runs_within (length pre) (length pre) (length pre + length ?here) pr"
      by auto
    have adv: "advancing (pr @ rr)" by (rule advancing_append [OF pa ra pw rw])
    have "runs_within (length pre) (length pre) (length pre + length ?here + length ?rest) pr"
      by (rule runs_within_weaken [OF pw]) simp_all
    moreover have "runs_within (length pre) (length pre)
                     (length pre + length ?here + length ?rest) rr"
      by (rule runs_within_weaken [OF rw]) simp_all
    ultimately have win: "runs_within (length pre) (length pre)
                            (length pre + length ?here + length ?rest) (pr @ rr)"
      by (rule runs_within_append)
    have "list_all2 (chunk_run tok chunk_size overlap P)
            (map (\<lambda>c. c\<lparr>ck_page_number := Some n\<rparr>) (chunk_text p chunk_size overlap tok off)
             @ chunk_pages ps chunk_size overlap tok (n + 1) (off + int (length p) + 2))
            (pr @ rr)"
      using pr rr by (intro list_all2_appendI) (simp_all add: list_all2_map1)
    with False adv win show ?thesis
      by (intro exI [of _ "pr @ rr"]) (simp add: add.assoc)
  qed
qed

text \<open>
  The pieces hold the words of the text in their order. A match of the sentence pattern
  is whitespace, or it is empty and stands at the end of the text or before the newline
  that ends it; the separators of paragraphs and of lines are whitespace too.
\<close>

lemma words_stripped_parts: "concat (map py_split (stripped_parts ps)) = concat (map py_split ps)"
  by (induction ps) (auto simp: stripped_parts_def words_strip words_blank)

lemma words_split_on_aux:
  "sep \<noteq> [] \<Longrightarrow> list_all py_isspace sep \<Longrightarrow> skip \<le> length s \<Longrightarrow> (0 < skip \<longrightarrow> cur = []) \<Longrightarrow>
   concat (map py_split (split_on sep skip cur s)) = py_split (cur @ drop skip s)"
proof (induction sep skip cur s rule: split_on.induct)
  case (1 sep skip cur)
  then show ?case by simp
next
  case (2 sep n cur c cs)
  then show ?case by simp
next
  case (3 sep cur c cs)
  show ?case
  proof (cases "starts_with sep (c # cs)")
    case False
    with 3 show ?thesis by simp
  next
    case True
    from starts_with_prefix [OF True] have eq: "c # cs = sep @ drop (length sep) (c # cs)" .
    obtain x xs where sep: "sep = x # xs" using "3.prems"(1) by (cases sep) auto
    have "length sep \<le> length (c # cs)" using eq by (metis length_append le_add1)
    then have le: "length sep - 1 \<le> length cs" by simp
    have dr: "drop (length sep - 1) cs = drop (length sep) (c # cs)" using sep by simp
    have "concat (map py_split (split_on sep (length sep - 1) [] cs))
            = py_split ([] @ drop (length sep - 1) cs)"
      by (rule "3.IH"(1) [OF True "3.prems"(1,2) le]) simp
    then have "concat (map py_split (split_on sep 0 cur (c # cs)))
                 = py_split cur @ py_split (drop (length sep) (c # cs))"
      using True dr by simp
    also have "\<dots> = py_split (cur @ sep @ drop (length sep) (c # cs))"
      by (rule words_append_space [symmetric]) (use "3.prems" in auto)
    finally show ?thesis using eq by simp
  qed
qed

lemma words_py_split_on:
  "sep \<noteq> [] \<Longrightarrow> list_all py_isspace sep \<Longrightarrow> concat (map py_split (py_split_on sep s)) = py_split s"
  using words_split_on_aux [of sep 0 s "[]"] by (simp add: py_split_on_def)

lemma states_space:
  "s1 \<in> set (states False space s) \<Longrightarrow> \<exists>c. fst (snd s) = c # fst (snd s1) \<and> py_isspace c"
  by (cases "fst (snd s)") (auto simp: space_def set_match_def item_match_def split: if_splits)

lemma rep_space:
  "s' \<in> set (rep_states (states False space) lazy lo hi fuel k s) \<Longrightarrow>
   \<exists>ws. fst (snd s) = ws @ fst (snd s') \<and> list_all py_isspace ws \<and> lo \<le> k + length ws"
proof (induction fuel arbitrary: k s)
  case 0
  then show ?case by (auto split: if_splits)
next
  case (Suc fuel)
  from Suc.prems consider
    (stop) "s' = s" "lo \<le> k"
    | (again) s1 where "s1 \<in> set (states False space s)"
        "s' \<in> set (rep_states (states False space) lazy lo hi fuel (Suc k) s1)"
    by (auto simp: Let_def split: if_splits)
  then show ?case
  proof cases
    case stop
    then show ?thesis by (intro exI [of _ "[]"]) simp
  next
    case again
    from states_space [OF again(1)] obtain c where
      c: "fst (snd s) = c # fst (snd s1)" "py_isspace c"
      by auto
    from Suc.IH [OF again(2)] obtain ws where
      "fst (snd s1) = ws @ fst (snd s')" "list_all py_isspace ws" "lo \<le> Suc k + length ws"
      by auto
    with c show ?thesis by (intro exI [of _ "c # ws"]) simp
  qed
qed

lemma in_Cat:
  "s' \<in> set (states ci (Cat a b) s) = (\<exists>s0\<in>set (states ci a s). s' \<in> set (states ci b s0))"
  by auto

lemma in_Alt:
  "s' \<in> set (states ci (Alt a b) s) = (s' \<in> set (states ci a s) \<or> s' \<in> set (states ci b s))"
  by simp

lemma in_Behind: "s0 \<in> set (states ci (Behind items) s) \<Longrightarrow> s0 = s"
  by (auto split: option.splits if_splits)

lemma in_Ahead: "s0 \<in> set (states ci (Ahead r) s) \<Longrightarrow> s0 = s"
  by (auto split: if_splits)

lemma in_End: "s0 \<in> set (states ci End_of_string s) \<Longrightarrow>
                 s0 = s \<and> (fst (snd s) = [] \<or> fst (snd s) = [CHR 0x0A])"
  by (auto split: if_splits)

lemma in_plus_space:
  "s' \<in> set (states False (plus space) s) \<Longrightarrow>
   \<exists>ws. fst (snd s) = ws @ fst (snd s') \<and> list_all py_isspace ws \<and> 1 \<le> length ws"
  using rep_space [of s' False 1 None "Suc (length (fst (snd s)))" 0 s]
  by (simp add: plus_def del: rep_states.simps)

lemma sentence_separator:
  assumes "s \<in> set (states False sentence_pattern (prev, t, []))"
  shows "\<exists>ws. t = ws @ fst (snd s) \<and> list_all py_isspace ws \<and>
              (ws = [] \<longrightarrow> t = [] \<or> py_isspace (hd t))"
proof -
  let ?behind = "Behind [One (CHR ''.''), One (CHR ''!''), One (CHR ''?'')]"
  let ?ahead = "Ahead (Set False [Range (CHR ''A'') (CHR ''Z'')])"
  have sp: "sentence_pattern =
              Alt (Cat ?behind (Cat (plus space) ?ahead)) (Cat ?behind End_of_string)"
    by (simp add: sentence_pattern_def)
  have "s \<in> set (states False (Cat ?behind (Cat (plus space) ?ahead)) (prev, t, [])) \<or>
        s \<in> set (states False (Cat ?behind End_of_string) (prev, t, []))"
    using assms unfolding sp in_Alt .
  then show ?thesis
  proof
    assume "s \<in> set (states False (Cat ?behind (Cat (plus space) ?ahead)) (prev, t, []))"
    then obtain s0 where s0: "s0 \<in> set (states False ?behind (prev, t, []))"
      and "s \<in> set (states False (Cat (plus space) ?ahead) s0)"
      by (subst (asm) in_Cat) blast
    then obtain s1 where s1: "s1 \<in> set (states False (plus space) s0)"
      and s2: "s \<in> set (states False ?ahead s1)"
      by (subst (asm) in_Cat) blast
    have "s0 = (prev, t, [])" using s0 by (rule in_Behind)
    moreover have "s = s1" using s2 by (rule in_Ahead)
    ultimately have "s \<in> set (states False (plus space) (prev, t, []))" using s1 by simp
    from in_plus_space [OF this] obtain ws where
      "t = ws @ fst (snd s)" "list_all py_isspace ws" "1 \<le> length ws"
      by auto
    then show ?thesis by (intro exI [of _ ws]) auto
  next
    assume "s \<in> set (states False (Cat ?behind End_of_string) (prev, t, []))"
    then obtain s0 where s0: "s0 \<in> set (states False ?behind (prev, t, []))"
      and e: "s \<in> set (states False End_of_string s0)"
      by (subst (asm) in_Cat) blast
    have "s0 = (prev, t, [])" using s0 by (rule in_Behind)
    with in_End [OF e] have "s = (prev, t, [])" "t = [] \<or> t = [CHR 0x0A]" by simp_all
    then show ?thesis
      by (intro exI [of _ "[]"]) (auto simp: py_isspace_def)
  qed
qed

lemma pick_separator:
  assumes "pick must_advance t (states False sentence_pattern (prev, t, [])) = Some m"
  shows "list_all py_isspace (m_text m) \<and> (m_text m = [] \<longrightarrow> t = [] \<or> py_isspace (hd t))"
proof -
  from pick_in [OF assms] obtain s where
    s: "s \<in> set (states False sentence_pattern (prev, t, []))" and m: "m = match_of t s"
    by auto
  from sentence_separator [OF s] obtain ws where
    ws: "t = ws @ fst (snd s)" "list_all py_isspace ws" "ws = [] \<longrightarrow> t = [] \<or> py_isspace (hd t)"
    by blast
  have "length t - length (fst (snd s)) = length ws" using ws(1)
    by (metis add_diff_cancel_right' length_append)
  then have "m_text m = ws" using m ws(1) by (simp add: match_of_def) 
  with ws show ?thesis by simp
qed

lemma scan_words:
  "skip \<le> length t \<Longrightarrow> scan False sentence_pattern skip prev acc t = (found, rest) \<Longrightarrow>
   (0 < skip \<longrightarrow> acc = []) \<Longrightarrow>
   concat (map py_split (map fst found @ [rest])) = py_split (acc @ drop skip t)"
proof (induction False sentence_pattern skip prev acc t arbitrary: found rest rule: scan.induct)
  case (1 skip prev acc)
  then show ?case by (auto simp: py_split_def split: option.splits)
next
  case (2 n prev acc c cs)
  then show ?case by simp
next
  case (3 prev acc c cs)
  let ?r = sentence_pattern
  show ?case
  proof (cases "pick False (c # cs) (states False ?r (prev, c # cs, []))")
    case None
    with 3 show ?thesis by simp
  next
    case (Some m)
    from pick_prefix [OF Some] obtain k where mk: "m_text m = take k (c # cs)" by auto
    show ?thesis
    proof (cases "m_text m = []")
      case False
      obtain f1 r1 where s1: "scan False ?r (length (m_text m) - 1) (Some c) [] cs = (f1, r1)"
        by (cases "scan False ?r (length (m_text m) - 1) (Some c) [] cs") auto
      have le: "length (m_text m) - 1 \<le> length cs" using mk by simp
      from "3.hyps"(2) [OF Some False le s1]
      have ih: "concat (map py_split (map fst f1 @ [r1])) = py_split (drop (length (m_text m) - 1) cs)"
        by simp
      from "3.prems"(2) Some False s1 have fr: "found = (acc, m) # f1" "rest = r1" by auto
      have "py_split (acc @ m_text m @ drop (length (m_text m) - 1) cs)
              = py_split acc @ py_split (drop (length (m_text m) - 1) cs)"
        using pick_separator [OF Some] False by (intro words_append_space) auto
      then show ?thesis using ih fr take_drop_pred [OF mk False] by simp
    next
      case True
      with pick_separator [OF Some] have sp: "py_isspace c" by simp
      show ?thesis
      proof (cases "pick True (c # cs) (states False ?r (prev, c # cs, []))")
        case None
        obtain f1 r1 where s1: "scan False ?r 0 (Some c) [c] cs = (f1, r1)"
          by (cases "scan False ?r 0 (Some c) [c] cs") auto
        from "3.hyps"(3) [OF Some _ None _ s1] True
        have ih: "concat (map py_split (map fst f1 @ [r1])) = py_split (c # cs)" by simp
        from "3.prems"(2) Some True None s1 have fr: "found = (acc, m) # f1" "rest = r1"
          by auto
        have "py_split (acc @ c # cs) = py_split acc @ py_split (c # cs)"
          using sp by (intro words_append_at_space) simp
        then show ?thesis using ih fr by simp
      next
        case m2: (Some m2)
        from pick_prefix [OF m2] obtain k2 where mk2: "m_text m2 = take k2 (c # cs)" "0 < k2"
          by auto
        then have ne: "m_text m2 \<noteq> []" by (cases k2) auto
        obtain f1 r1 where s1: "scan False ?r (length (m_text m2) - 1) (Some c) [] cs = (f1, r1)"
          by (cases "scan False ?r (length (m_text m2) - 1) (Some c) [] cs") auto
        have le: "length (m_text m2) - 1 \<le> length cs" using mk2 by simp
        from "3.hyps"(4) [OF Some _ m2 le s1] True
        have ih: "concat (map py_split (map fst f1 @ [r1]))
                    = py_split (drop (length (m_text m2) - 1) cs)" by simp
        from "3.prems"(2) Some True m2 s1
        have fr: "found = (acc, m) # ([], m2) # f1" "rest = r1" by auto
        have "py_split (acc @ m_text m2 @ drop (length (m_text m2) - 1) cs)
                = py_split acc @ py_split (drop (length (m_text m2) - 1) cs)"
          using pick_separator [OF m2] ne by (intro words_append_space) auto
        then show ?thesis
          using ih fr take_drop_pred [OF mk2(1) ne] by (simp add: py_split_def)
      qed
    qed
  qed
qed

lemma words_re_split: "concat (map py_split (re_split False sentence_pattern t)) = py_split t"
proof -
  obtain found rest where s: "scan False sentence_pattern 0 None [] t = (found, rest)"
    by (cases "scan False sentence_pattern 0 None [] t") auto
  from scan_words [OF _ s] show ?thesis by (simp add: re_split_def s)
qed

lemma words_of_sentences: "concat (map py_split (split_into_sentences t)) = py_split t"
  by (simp add: split_into_sentences_def Let_def words_stripped_parts words_re_split
      words_py_split_on py_isspace_def)

lemma words_of_sentence_pieces:
  "concat (map (\<lambda>p. py_split (piece_text p)) (sentence_pieces tok chunk_size s)) = py_split s"
  using words_of_words [of s] by (simp add: sentence_pieces_def o_def)

lemma words_of_pieces:
  "concat (map (\<lambda>p. py_split (piece_text p)) (pieces_of tok chunk_size t)) = py_split t"
proof (cases "py_strip t = []")
  case True
  then show ?thesis by (simp add: pieces_of_def words_blank)
next
  case False
  have "concat (map (\<lambda>p. py_split (piece_text p))
                  (concat (map (sentence_pieces tok chunk_size) ss)))
          = concat (map py_split ss)" for ss
    by (induction ss) (simp_all add: words_of_sentence_pieces)
  with False show ?thesis
    by (simp add: pieces_of_def Let_def words_of_sentences words_strip)
qed

lemma words_of_document:
  "concat (map (\<lambda>p. py_split (piece_text p)) (document_pieces tok chunk_size t pages))
     = document_words t pages"
proof -
  have "concat (map (\<lambda>p. py_split (piece_text p)) (concat (map (pieces_of tok chunk_size) ps)))
          = concat (map py_split ps)" for ps
    by (induction ps) (simp_all add: words_of_pieces)
  then show ?thesis
    by (simp add: document_pieces_def document_words_def words_of_pieces split: option.splits)
qed

text \<open>
  C7, as stated, fails, at both bounds. With \<open>chunkSize = 2\<close>, \<open>overlap = 1\<close> and the
  fallback count of a token per four characters, the text \<open>abcdefghijklmnop\<close> is one
  sentence of four tokens and one word: the word loop has nothing smaller to cut it into,
  and the only chunk has \<open>token_count = 4\<close>, above \<open>chunkSize + overlap = 3\<close>. With the
  same parameters twelve words of one letter make a sentence of five tokens whose words
  count no token each: the only chunk has \<open>token_count = 0\<close>.
\<close>

theorem C7_chunk_bounds_counterexample:
  "map ck_content (chunk_document None ''abcdefghijklmnop'' 2 1 None) = [''abcdefghijklmnop''] \<and>
   map ck_token_count (chunk_document None ''abcdefghijklmnop'' 2 1 None) = [4] \<and>
   \<not> (4 \<le> (2::int) + 1) \<and>
   map ck_content (chunk_document None ''a b c d e f g h i j k l'' 2 1 None)
     = [''a b c d e f g h i j k l''] \<and>
   map ck_token_count (chunk_document None ''a b c d e f g h i j k l'' 2 1 None) = [0]"
  by code_simp

text \<open>
  Two more runs with the fallback count. With a negative overlap nothing is kept from one
  chunk to the next and the chunks are filled up to \<open>chunkSize\<close>, above
  \<open>chunkSize + overlap\<close>. And the positions recorded in the chunks do not follow the
  chunks: after an overlap \<open>_chunk_text\<close> computes the start of the next chunk from the
  offset of the text (line 198), where \<open>_split_large_text\<close> adds to the start of the
  chunk before (line 287), so the third chunk here is recorded as starting before the
  second.
\<close>

lemma negative_overlap_at_input:
  "map ck_token_count (chunk_document None
      ''Aaaaaaaaaaaaaaaa. Bbbbbbb. Cccccccccccccccccccc. Dddddddd.'' 5 (- 3) None) = [4, 2, 5]"
  by code_simp

lemma chunk_positions_at_input:
  "map ck_start_char (chunk_document None
      ''Aaaaaaaaaaaaaaaa. Bbbbbbb. Cccccccccccccccccccc. Dddddddd.'' 5 0 None) = [0, 17, 8]"
  by code_simp

text \<open>
  C7, amended: for every input text (or list of page texts), tokenizer and parameters
  \<open>chunkSize\<close> and \<open>overlap\<close>, the chunks appear in original-text order and their token
  counts are bounded as follows. The pieces of the text, that is its sentences in order,
  a sentence of more than \<open>chunkSize\<close> tokens being replaced by its words, hold the words
  of the text in their order. Every chunk is a run of one or more consecutive pieces
  joined by spaces, and from each chunk to every later one the run starts no earlier and
  ends later. The \<open>token_count\<close> of a chunk is the sum of the tokens of its pieces; it is
  at most \<open>chunkSize + overlap\<close> (a negative overlap counting as none) unless the chunk
  holds a word that counts more than \<open>chunkSize\<close> tokens by itself, and it is above zero
  unless every piece of the chunk counts no token.
\<close>

theorem C7_chunks_in_order_within_bounds:
  "concat (map (\<lambda>p. py_split (piece_text p)) (document_pieces tok chunk_size t pages))
     = document_words t pages \<and>
   (\<exists>runs. list_all2 (chunk_run tok chunk_size overlap
                        (document_pieces tok chunk_size t pages))
             (chunk_document tok t chunk_size overlap pages) runs \<and>
           advancing runs)"
proof -
  have "\<exists>runs. list_all2 (chunk_run tok chunk_size overlap
                            (document_pieces tok chunk_size t pages))
                 (chunk_document tok t chunk_size overlap pages) runs \<and>
               advancing runs"
  proof (cases "t = [] \<or> py_strip t = []")
    case True
    then show ?thesis by (simp add: chunk_document_def)
  next
    case False
    show ?thesis
    proof (cases "\<exists>ps. pages = Some ps \<and> ps \<noteq> []")
      case True
      then obtain ps where ps: "pages = Some ps" "ps \<noteq> []" by auto
      from chunk_pages_runs [of "concat (map (pieces_of tok chunk_size) ps)" "[]"
          tok chunk_size ps "[]" overlap 1 0]
      show ?thesis using False ps by (auto simp: chunk_document_def document_pieces_def)
    next
      case no_pages: False
      from chunk_text_runs [of "pieces_of tok chunk_size t" "[]" tok chunk_size t "[]" overlap 0]
      show ?thesis
        using False no_pages
        by (auto simp: chunk_document_def document_pieces_def split: option.splits)
    qed
  qed
  then show ?thesis by (simp add: words_of_document)
qed

text \<open>
  The chunks of the text of four sentences, with \<open>chunkSize = 5\<close> and \<open>overlap = 1\<close>: its
  pieces, the chunks, and the runs that the chunks are made of. No word counts more than
  five tokens, and the four token counts lie between 1 and 6.
\<close>

lemma demo_pieces:
  "document_pieces None 5 demo_text None =
     [Sentence ''Aaaaaaaaaaaaaaaa.'', Sentence ''Bbbbbbb.'', Word ''Cccc'', Word ''dddd'',
      Word ''eeee'', Word ''ffff'', Word ''gggg'', Word ''hhhh'', Word ''iiii.'',
      Sentence ''Dddddddd.'']"
  by code_simp

lemma demo_chunk_contents:
  "map ck_content (chunk_document None demo_text 5 1 None) =
     [''Aaaaaaaaaaaaaaaa.'', ''Bbbbbbb.'', ''Cccc dddd eeee ffff gggg'', ''gggg hhhh iiii.''] \<and>
   map ck_token_count (chunk_document None demo_text 5 1 None) = [4, 2, 5, 3]"
  by code_simp

lemma demo_runs:
  "list_all2 (chunk_run None 5 1 (document_pieces None 5 demo_text None))
     (chunk_document None demo_text 5 1 None) [(0, 1), (1, 1), (2, 5), (6, 3)] \<and>
   advancing [(0, 1), (1, 1), (2, 5), (6, 3)]"
  by code_simp

lemma demo_words:
  "document_words demo_text None =
     [''Aaaaaaaaaaaaaaaa.'', ''Bbbbbbb.'', ''Cccc'', ''dddd'', ''eeee'', ''ffff'', ''gggg'',
      ''hhhh'', ''iiii.'', ''Dddddddd.'']"
  by code_simp

theorem C7_chunks_in_order_within_bounds_witness:
  "concat (map (\<lambda>p. py_split (piece_text p)) (document_pieces None 5 demo_text None))
     = [''Aaaaaaaaaaaaaaaa.'', ''Bbbbbbb.'', ''Cccc'', ''dddd'', ''eeee'', ''ffff'', ''gggg'',
        ''hhhh'', ''iiii.'', ''Dddddddd.''] \<and>
   (\<exists>runs. list_all2 (chunk_run None 5 1 (document_pieces None 5 demo_text None))
             (chunk_document None demo_text 5 1 None) runs \<and>
           advancing runs)"
  using C7_chunks_in_order_within_bounds [of None 5 demo_text None 1]
  by (simp add: demo_words)

end
